theory Spec2Isabelle
  imports Main "HOL-Library.AList"
begin

section \<open>LocalBanker (rtbkit/core/banker/local_banker.cc)\<close>

text \<open>
  The local banker keeps a replica of budget accounts and reconciles it with a remote
  ledger over HTTP. Timer callbacks and HTTP response callbacks all run on the banker's
  own message loop, one at a time, so each of them is one atomic step on the banker's
  state. The state below holds the members of the class, the requests handed to the HTTP
  client with the record of which of them were answered, and the telemetry events
  recorded so far.
  Latency levels (wall-clock differences in floating point) and the text written to
  standard output are left out, and so are \<open>bid\<close> and \<open>win\<close>, which only forward to
  the account store and record a counter.
\<close>

subsection \<open>Keys, accounts, the account store\<close>

datatype GoAccountType = ROUTER | POST_AUCTION

text \<open>
  Modelled from the spec: the class AccountKey (account_key.h is not among the sources).
  A key is the sequence of its path segments; it is built from a string by cutting at
  every colon (\<open>split_colon\<close>) and rendered by joining the segments with colons.
\<close>

type_synonym AccountKey = "string list"

fun split_colon :: "string \<Rightarrow> string list" where
  "split_colon [] = [[]]"
| "split_colon (c # cs) =
     (if c = CHR '':'' then [] # split_colon cs
      else (case split_colon cs of
              [] \<Rightarrow> [[c]]
            | seg # segs \<Rightarrow> (c # seg) # segs))"

definition AccountKey :: "string \<Rightarrow> AccountKey" where
  "AccountKey s = (if s = [] then [] else split_colon s)"

fun toString :: "AccountKey \<Rightarrow> string" where
  "toString [] = []"
| "toString [seg] = seg"
| "toString (seg # segs) = seg @ '':'' @ toString segs"

record GoAccount =
  accBalance :: int
  accSpend :: int
  accRate :: int

text \<open>
  Modelled from the spec: the class GoAccounts (go_account.h and go_account.cc are not
  among the sources). The store maps keys to account records, keys unique, and carries
  the default spend rate. Amounts are 64-bit counts of micro-units in the source; this
  file only compares and copies them, so they are integers here.
\<close>

record GoAccounts =
  accountsMap :: "(AccountKey \<times> GoAccount) list"
  defaultRate :: int

text \<open>
  Modelled from the spec: GoAccounts::exists tells whether the store holds the key.
\<close>

definition exists :: "GoAccounts \<Rightarrow> AccountKey \<Rightarrow> bool" where
  "exists accs key = (map_of (accountsMap accs) key \<noteq> None)"

text \<open>
  Modelled from the spec: GoAccounts::getBalance. The spec leaves the result for an
  absent key to the implementer; the zero amount is taken as the sentinel.
\<close>

definition getBalance :: "GoAccounts \<Rightarrow> AccountKey \<Rightarrow> int" where
  "getBalance accs key =
     (case map_of (accountsMap accs) key of None \<Rightarrow> 0 | Some a \<Rightarrow> accBalance a)"

text \<open>
  Modelled from the spec: GoAccounts::accumulateBalance replaces the balance by the
  freshly authorized one and returns the difference to the previous balance; an absent
  key is created with that balance and no accumulated spend (its previous balance counts
  as zero).
\<close>

definition accumulateBalance :: "GoAccounts \<Rightarrow> AccountKey \<Rightarrow> int \<Rightarrow> int \<times> GoAccounts" where
  "accumulateBalance accs key newBalance =
     (case map_of (accountsMap accs) key of
        None \<Rightarrow>
          (newBalance,
           accs\<lparr>accountsMap := AList.update key
             \<lparr>accBalance = newBalance, accSpend = 0, accRate = defaultRate accs\<rparr>
             (accountsMap accs)\<rparr>)
      | Some a \<Rightarrow>
          (newBalance - accBalance a,
           accs\<lparr>accountsMap := AList.update key (a\<lparr>accBalance := newBalance\<rparr>)
             (accountsMap accs)\<rparr>))"

text \<open>
  Modelled from the spec: GoAccounts::setSpendRate sets the store's default spend rate.
\<close>

definition setSpendRate_accounts :: "int \<Rightarrow> GoAccounts \<Rightarrow> GoAccounts" where
  "setSpendRate_accounts r accs = accs\<lparr>defaultRate := r\<rparr>"

subsection \<open>The JSON library and the wire format\<close>

text \<open>
  Outbound payloads are JSON values built by the banker.
\<close>

datatype jvalue =
    JInt int
  | JStr string
  | JArr "jvalue list"
  | JObj "(string \<times> jvalue) list"

record jsonAccount =
  name :: string
  balance :: int
  rate :: int

text \<open>
  The JSON decoder is an external library: what it makes of a response body is a
  parameter of the model. \<open>parseStatuses\<close> is \<open>Json::parse\<close> followed by the iteration
  of the spend-update handler (the members of the parsed object with their keys and
  values as strings), \<open>parseRecords\<close> is \<open>Json::parse\<close> followed by the iteration of the
  reauthorize handler (the name, balance and rate of every element); both are \<open>None\<close>
  where \<open>Json::parse\<close> throws. \<open>decodeAccount\<close> reads one canonical account record, as
  the store's addFromJsonString and replaceFromJsonString do, and is \<open>None\<close> on a
  malformed record. \<open>accountToJson\<close> is GoAccount::toJson.
\<close>

record json_codec =
  parseStatuses :: "string \<Rightarrow> (string \<times> string) list option"
  parseRecords :: "string \<Rightarrow> jsonAccount list option"
  decodeAccount :: "string \<Rightarrow> (AccountKey \<times> GoAccount) option"
  accountToJson :: "GoAccount \<Rightarrow> jvalue"

text \<open>
  Modelled from the spec: GoAccounts::addFromJsonString inserts the decoded account if
  its key is absent, GoAccounts::replaceFromJsonString overwrites it unconditionally;
  both return false on a malformed record and leave the store as it is.
\<close>

definition addFromJsonString :: "json_codec \<Rightarrow> string \<Rightarrow> GoAccounts \<Rightarrow> bool \<times> GoAccounts" where
  "addFromJsonString c body accs =
     (case decodeAccount c body of
        None \<Rightarrow> (False, accs)
      | Some (key, a) \<Rightarrow>
          if exists accs key then (True, accs)
          else (True, accs\<lparr>accountsMap := AList.update key a (accountsMap accs)\<rparr>))"

definition replaceFromJsonString :: "json_codec \<Rightarrow> string \<Rightarrow> GoAccounts \<Rightarrow> bool \<times> GoAccounts" where
  "replaceFromJsonString c body accs =
     (case decodeAccount c body of
        None \<Rightarrow> (False, accs)
      | Some (key, a) \<Rightarrow>
          (True, accs\<lparr>accountsMap := AList.update key a (accountsMap accs)\<rparr>))"

subsection \<open>Requests, telemetry, the banker's state\<close>

datatype http_method = GET | POST

datatype callback =
    AddAccountCb AccountKey
  | ReplaceAccountCb AccountKey
  | SpendUpdateCb
  | ReauthorizeCb
  | SetRateCb

record request =
  verb :: http_method
  url :: string
  payload :: "jvalue option"
  onResponse :: callback

datatype event =
    Hit string
  | Level int string
  | Count nat string

record LocalBanker =
  type :: GoAccountType
  accountSuffix :: string
  accountSuffixNoDot :: string
  accounts :: GoAccounts
  spendRate :: int
  reauthorizeInProgress :: bool
  reauthorizeSkipped :: int
  spendUpdateInProgress :: bool
  spendUpdateSkipped :: int
  debug :: bool
  uninitializedAccounts :: "AccountKey list"
  httpClient :: "request list"
  answered :: "nat list"
  events :: "event list"

text \<open>
  \<open>uninitializedAccounts\<close> is an unordered set in the source: a list without
  repetitions here, so that the periodic sweep can run over it. \<open>httpClient\<close> holds
  every request handed to the HTTP client, oldest first; the position of a request in
  it identifies the request, and \<open>answered\<close> holds the positions of the requests whose
  response callback has run. The two skip counters are machine integers in the source;
  a tick leaves them between 0 and 3 (lemma \<open>skip_counters_bounded\<close>), so they are
  integers here. A new banker's store is taken to start from the same default rate as
  the banker.
\<close>

definition set_insert :: "'a \<Rightarrow> 'a list \<Rightarrow> 'a list" where
  "set_insert x xs = (if x \<in> set xs then xs else xs @ [x])"

definition set_erase :: "'a \<Rightarrow> 'a list \<Rightarrow> 'a list" where
  "set_erase x xs = (if x \<in> set xs then removeAll x xs else xs)"

definition recordHit :: "string \<Rightarrow> LocalBanker \<Rightarrow> LocalBanker" where
  "recordHit n st = st\<lparr>events := events st @ [Hit n]\<rparr>"

definition recordLevel :: "int \<Rightarrow> string \<Rightarrow> LocalBanker \<Rightarrow> LocalBanker" where
  "recordLevel v n st = st\<lparr>events := events st @ [Level v n]\<rparr>"

definition recordCount :: "nat \<Rightarrow> string \<Rightarrow> LocalBanker \<Rightarrow> LocalBanker" where
  "recordCount v n st = st\<lparr>events := events st @ [Count v n]\<rparr>"

definition send :: "request \<Rightarrow> LocalBanker \<Rightarrow> LocalBanker" where
  "send r st = st\<lparr>httpClient := httpClient st @ [r]\<rparr>"

definition LocalBanker_new :: "GoAccountType \<Rightarrow> string \<Rightarrow> LocalBanker" where
  "LocalBanker_new t suffix =
     \<lparr>type = t,
      accountSuffix = suffix,
      accountSuffixNoDot = map (\<lambda>ch. if ch = CHR ''.'' then CHR ''_'' else ch) suffix,
      accounts = \<lparr>accountsMap = [], defaultRate = 100000\<rparr>,
      spendRate = 100000,
      reauthorizeInProgress = False,
      reauthorizeSkipped = 0,
      spendUpdateInProgress = False,
      spendUpdateSkipped = 0,
      debug = False,
      uninitializedAccounts = [],
      httpClient = [],
      answered = [],
      events = []\<rparr>"

definition setSpendRate :: "int \<Rightarrow> LocalBanker \<Rightarrow> LocalBanker" where
  "setSpendRate newSpendRate st =
     st\<lparr>spendRate := newSpendRate,
        accounts := setSpendRate_accounts newSpendRate (accounts st)\<rparr>"

definition setDebug :: "bool \<Rightarrow> LocalBanker \<Rightarrow> LocalBanker" where
  "setDebug debugSetting st = st\<lparr>debug := debugSetting\<rparr>"

subsection \<open>Lazy registration\<close>

definition addAccountImpl :: "AccountKey \<Rightarrow> LocalBanker \<Rightarrow> LocalBanker" where
  "addAccountImpl key st =
     (if exists (accounts st) key
      then st\<lparr>uninitializedAccounts := set_erase key (uninitializedAccounts st)\<rparr>
      else
        let st1 = st\<lparr>uninitializedAccounts := set_insert key (uninitializedAccounts st)\<rparr>;
            st2 = recordHit ''addAccount.attempts'' st1
        in send
             \<lparr>verb = POST,
              url = ''/accounts'',
              payload = Some (JObj
                [(''accountName'', JStr (toString key)),
                 (''accountType'',
                    JStr (case type st2 of ROUTER \<Rightarrow> ''Router''
                                        | POST_AUCTION \<Rightarrow> ''PostAuction''))]),
              onResponse = AddAccountCb key\<rparr>
             st2)"

definition addAccount :: "AccountKey \<Rightarrow> LocalBanker \<Rightarrow> LocalBanker" where
  "addAccount key st =
     addAccountImpl (AccountKey (toString key @ '':'' @ accountSuffix st)) st"

definition addAccount_onResponse ::
  "json_codec \<Rightarrow> AccountKey \<Rightarrow> int \<Rightarrow> string \<Rightarrow> LocalBanker \<Rightarrow> LocalBanker" where
  "addAccount_onResponse c key status body st =
     (if status \<noteq> 200 then recordHit ''addAccount.failure'' st
      else
        let (added, accs) = addFromJsonString c body (accounts st);
            st1 = st\<lparr>accounts := accs,
                     uninitializedAccounts := set_erase key (uninitializedAccounts st)\<rparr>;
            st2 = (if \<not> added then recordHit ''addAccount.error'' st1 else st1)
        in recordHit ''addAccount.success'' st2)"

definition initializeAccountsPeriodic :: "LocalBanker \<Rightarrow> LocalBanker" where
  "initializeAccountsPeriodic st =
     (let tempUninitialized = uninitializedAccounts st;
          st1 = st\<lparr>uninitializedAccounts := []\<rparr>;
          st2 = recordCount (length (accountsMap (accounts st1))) ''accounts'' st1
      in fold addAccountImpl tempUninitialized st2)"

subsection \<open>Replace on desync, rate update\<close>

definition replaceAccount :: "AccountKey \<Rightarrow> LocalBanker \<Rightarrow> LocalBanker" where
  "replaceAccount key st =
     send
       \<lparr>verb = GET,
        url = ''/accounts/'' @ toString key,
        payload = None,
        onResponse = ReplaceAccountCb key\<rparr>
       (recordHit ''updateOutOfSync.attempts'' st)"

definition replaceAccount_onResponse ::
  "json_codec \<Rightarrow> AccountKey \<Rightarrow> int \<Rightarrow> string \<Rightarrow> LocalBanker \<Rightarrow> LocalBanker" where
  "replaceAccount_onResponse c key status body st =
     (if status \<noteq> 200 then recordHit ''updateOutOfSync.failure'' st
      else
        let (replaced, accs) = replaceFromJsonString c body (accounts st);
            st1 = st\<lparr>accounts := accs\<rparr>;
            st2 = (if \<not> replaced then recordHit ''replaceAccount.error'' st1 else st1)
        in recordHit ''updateOutOfSync.success'' st2)"

definition setRate :: "AccountKey \<Rightarrow> LocalBanker \<Rightarrow> LocalBanker" where
  "setRate key st =
     send
       \<lparr>verb = POST,
        url = ''/accounts/'' @ toString key @ ''/rate'',
        payload = Some (JObj [(''USD/1M'', JInt (spendRate st))]),
        onResponse = SetRateCb\<rparr>
       (recordHit ''setRate.attempt'' st)"

definition setRate_onResponse :: "int \<Rightarrow> string \<Rightarrow> LocalBanker \<Rightarrow> LocalBanker" where
  "setRate_onResponse status body st =
     (if status \<noteq> 200 then recordHit ''setRate.failure'' st
      else recordHit ''setRate.success'' st)"

subsection \<open>Spend update\<close>

definition spendUpdate_send :: "json_codec \<Rightarrow> LocalBanker \<Rightarrow> LocalBanker" where
  "spendUpdate_send c st =
     (let st1 = st\<lparr>spendUpdateInProgress := True, spendUpdateSkipped := 0\<rparr>;
          st2 = recordHit ''spendUpdate.attempt'' st1
      in send
           \<lparr>verb = POST,
            url = ''/spendupdate'',
            payload = Some (JArr (map (\<lambda>it. accountToJson c (snd it))
                                      (accountsMap (accounts st2)))),
            onResponse = SpendUpdateCb\<rparr>
           st2)"

definition spendUpdate :: "json_codec \<Rightarrow> LocalBanker \<Rightarrow> LocalBanker" where
  "spendUpdate c st =
     (if spendUpdateInProgress st then
        let st1 = recordHit ''spendUpdate.inProgress'' st;
            st2 = st1\<lparr>spendUpdateSkipped := spendUpdateSkipped st1 + 1\<rparr>
        in if spendUpdateSkipped st2 > 3
           then spendUpdate_send c (recordHit ''spendUpdate.forceRetry'' st2)
           else st2
      else spendUpdate_send c st)"

fun spendUpdate_entries :: "(string \<times> string) list \<Rightarrow> LocalBanker \<Rightarrow> LocalBanker" where
  "spendUpdate_entries [] st = st"
| "spendUpdate_entries ((key, val) # rest) st =
     spendUpdate_entries rest
       (if val \<noteq> ''no need'' \<and> val \<noteq> ''success''
        then replaceAccount (AccountKey key) st
        else st)"

definition spendUpdate_onResponse ::
  "json_codec \<Rightarrow> int \<Rightarrow> string \<Rightarrow> LocalBanker \<Rightarrow> LocalBanker" where
  "spendUpdate_onResponse c status body st =
     (let st1 = st\<lparr>spendUpdateInProgress := False\<rparr>
      in if status \<noteq> 200 then recordHit ''spendUpdate.failure'' st1
         else
           case parseStatuses c body of
             None \<Rightarrow> recordHit ''spendUpdate.jsonParsingError'' st1
           | Some result \<Rightarrow>
               recordHit ''spendUpdate.success'' (spendUpdate_entries result st1))"

subsection \<open>Reauthorize\<close>

definition reauthorize_send :: "LocalBanker \<Rightarrow> LocalBanker" where
  "reauthorize_send st =
     (let st1 = st\<lparr>reauthorizeInProgress := True, reauthorizeSkipped := 0\<rparr>;
          st2 = recordHit ''reauthorize.attempt'' st1
      in send
           \<lparr>verb = POST,
            url = ''/reauthorize/1'',
            payload = Some (JArr (map (\<lambda>it. JStr (toString (fst it)))
                                      (accountsMap (accounts st2)))),
            onResponse = ReauthorizeCb\<rparr>
           st2)"

definition reauthorize :: "LocalBanker \<Rightarrow> LocalBanker" where
  "reauthorize st =
     (if reauthorizeInProgress st then
        let st1 = recordHit ''reauthorize.inProgress'' st;
            st2 = st1\<lparr>reauthorizeSkipped := reauthorizeSkipped st1 + 1\<rparr>
        in if reauthorizeSkipped st2 > 3
           then reauthorize_send (recordHit ''reauthorize.forceRetry'' st2)
           else st2
      else reauthorize_send st)"

definition reauthorize_account :: "jsonAccount \<Rightarrow> LocalBanker \<Rightarrow> LocalBanker" where
  "reauthorize_account jsonAcc st =
     (let key = AccountKey (name jsonAcc);
          newBalance = balance jsonAcc;
          gKey = ''account.'' @ toString key @ '':'' @ accountSuffixNoDot st;
          st1 = (if debug st
                 then recordLevel newBalance (gKey @ ''.newBalance'')
                        (recordLevel
                           (getBalance (accounts st)
                              (AccountKey (toString key @ '':'' @ accountSuffix st)))
                           (gKey @ ''.oldBalance'') st)
                 else st);
          (spend, accs) = accumulateBalance (accounts st1) key newBalance;
          st2 = recordLevel spend (gKey @ ''.bidAmount'') (st1\<lparr>accounts := accs\<rparr>)
      in if rate jsonAcc > spendRate st2 then setRate key st2 else st2)"

definition reauthorize_onResponse ::
  "json_codec \<Rightarrow> int \<Rightarrow> string \<Rightarrow> LocalBanker \<Rightarrow> LocalBanker" where
  "reauthorize_onResponse c status body st =
     (let st1 = st\<lparr>reauthorizeInProgress := False\<rparr>
      in if status \<noteq> 200 then recordHit ''reauthorize.failure'' st1
         else
           case parseRecords c body of
             None \<Rightarrow> recordHit ''reautorize.jsonParsingError'' st1
           | Some jsonAccounts \<Rightarrow>
               recordHit ''reauthorize.success'' (fold reauthorize_account jsonAccounts st1))"

subsection \<open>The message loop\<close>

text \<open>
  A response is delivered to an outstanding request, the one at position \<open>i\<close>: the
  request is marked as answered and its callback runs, once, with the status and the
  body.
\<close>

definition runCallback ::
  "json_codec \<Rightarrow> callback \<Rightarrow> int \<Rightarrow> string \<Rightarrow> LocalBanker \<Rightarrow> LocalBanker" where
  "runCallback c cb status body st =
     (case cb of
        AddAccountCb key \<Rightarrow> addAccount_onResponse c key status body st
      | ReplaceAccountCb key \<Rightarrow> replaceAccount_onResponse c key status body st
      | SpendUpdateCb \<Rightarrow> spendUpdate_onResponse c status body st
      | ReauthorizeCb \<Rightarrow> reauthorize_onResponse c status body st
      | SetRateCb \<Rightarrow> setRate_onResponse status body st)"

definition deliver ::
  "json_codec \<Rightarrow> nat \<Rightarrow> int \<Rightarrow> string \<Rightarrow> LocalBanker \<Rightarrow> LocalBanker" where
  "deliver c i status body st =
     (if i < length (httpClient st) \<and> i \<notin> set (answered st)
      then runCallback c (onResponse (httpClient st ! i)) status body
             (st\<lparr>answered := i # answered st\<rparr>)
      else st)"

text \<open>
  The periodic callbacks as \<open>init\<close> registers them: reauthorize only for a router,
  spend update only for a post-auction loop, the registration sweep for both.
\<close>

datatype loop_event =
    ReauthorizeTick
  | SpendUpdateTick
  | UninitializedAccountsTick
  | Response nat int string

fun handle :: "json_codec \<Rightarrow> loop_event \<Rightarrow> LocalBanker \<Rightarrow> LocalBanker" where
  "handle c ReauthorizeTick st = (if type st = ROUTER then reauthorize st else st)"
| "handle c SpendUpdateTick st = (if type st = POST_AUCTION then spendUpdate c st else st)"
| "handle c UninitializedAccountsTick st = initializeAccountsPeriodic st"
| "handle c (Response i status body) st = deliver c i status body st"

definition run :: "json_codec \<Rightarrow> loop_event list \<Rightarrow> LocalBanker \<Rightarrow> LocalBanker" where
  "run c evs st = fold (handle c) evs st"

subsection \<open>Observations used by the theorems\<close>

text \<open>
  The requests handed to the HTTP client between two states, the requests of one
  callback that are still outstanding, and the requests a periodic attempt sends from a
  given state.
\<close>

definition issued :: "LocalBanker \<Rightarrow> LocalBanker \<Rightarrow> request list" where
  "issued st st' = drop (length (httpClient st)) (httpClient st')"

definition outstanding :: "callback \<Rightarrow> LocalBanker \<Rightarrow> nat list" where
  "outstanding cb st =
     filter (\<lambda>i. i \<notin> set (answered st) \<and> onResponse (httpClient st ! i) = cb)
       [0..<length (httpClient st)]"

definition spendUpdate_request :: "json_codec \<Rightarrow> LocalBanker \<Rightarrow> request" where
  "spendUpdate_request c st =
     \<lparr>verb = POST,
      url = ''/spendupdate'',
      payload = Some (JArr (map (\<lambda>it. accountToJson c (snd it))
                                (accountsMap (accounts st)))),
      onResponse = SpendUpdateCb\<rparr>"

definition reauthorize_request :: "LocalBanker \<Rightarrow> request" where
  "reauthorize_request st =
     \<lparr>verb = POST,
      url = ''/reauthorize/1'',
      payload = Some (JArr (map (\<lambda>it. JStr (toString (fst it)))
                                (accountsMap (accounts st)))),
      onResponse = ReauthorizeCb\<rparr>"

definition replace_request :: "AccountKey \<Rightarrow> request" where
  "replace_request key =
     \<lparr>verb = GET,
      url = ''/accounts/'' @ toString key,
      payload = None,
      onResponse = ReplaceAccountCb key\<rparr>"

definition setRate_request :: "AccountKey \<Rightarrow> int \<Rightarrow> request" where
  "setRate_request key r =
     \<lparr>verb = POST,
      url = ''/accounts/'' @ toString key @ ''/rate'',
      payload = Some (JObj [(''USD/1M'', JInt r)]),
      onResponse = SetRateCb\<rparr>"

definition register_request :: "GoAccountType \<Rightarrow> AccountKey \<Rightarrow> request" where
  "register_request t key =
     \<lparr>verb = POST,
      url = ''/accounts'',
      payload = Some (JObj
        [(''accountName'', JStr (toString key)),
         (''accountType'',
            JStr (case t of ROUTER \<Rightarrow> ''Router'' | POST_AUCTION \<Rightarrow> ''PostAuction''))]),
      onResponse = AddAccountCb key\<rparr>"

definition registrations :: "AccountKey \<Rightarrow> request list \<Rightarrow> request list" where
  "registrations key rs = filter (\<lambda>r. onResponse r = AddAccountCb key) rs"

text \<open>
  Every position recorded as answered is the position of a request that was sent. The
  constructor establishes this and every step keeps it.
\<close>

definition client_wf :: "LocalBanker \<Rightarrow> bool" where
  "client_wf st = list_all (\<lambda>i. i < length (httpClient st)) (answered st)"

text \<open>
  A decoder for concrete runs: it gives the stated parse results for every body.
\<close>

definition codec_of ::
  "(string \<times> string) list option \<Rightarrow> jsonAccount list option \<Rightarrow>
     (AccountKey \<times> GoAccount) option \<Rightarrow> json_codec" where
  "codec_of statuses records account =
     \<lparr>parseStatuses = (\<lambda>body. statuses),
      parseRecords = (\<lambda>body. records),
      decodeAccount = (\<lambda>body. account),
      accountToJson = (\<lambda>a. JObj [(''balance'', JInt (accBalance a)),
                                    (''spend'', JInt (accSpend a)),
                                    (''rate'', JInt (accRate a))])\<rparr>"

text \<open>
  A router with the suffix "router" on which \<open>addAccount\<close> was called for
  "camp1:strategy1" and the registration was answered with the account
  "camp1:strategy1:router" holding a balance of 1000000.
\<close>

definition router_with_account :: LocalBanker where
  "router_with_account =
     deliver
       (codec_of None None
          (Some ([''camp1'', ''strategy1'', ''router''],
                 \<lparr>accBalance = 1000000, accSpend = 0, accRate = 100000\<rparr>)))
       0 200 ''account''
       (addAccount [''camp1'', ''strategy1''] (LocalBanker_new ROUTER ''router''))"

text \<open>
  The same router when the registration was answered with an account whose own rate is
  \<open>r\<close>; the banker's configured spend rate stays at its initial 100000.
\<close>

definition router_with_rate :: "int \<Rightarrow> LocalBanker" where
  "router_with_rate r =
     deliver
       (codec_of None None
          (Some ([''camp1'', ''strategy1'', ''router''],
                 \<lparr>accBalance = 1000000, accSpend = 0, accRate = r\<rparr>)))
       0 200 ''account''
       (addAccount [''camp1'', ''strategy1''] (LocalBanker_new ROUTER ''router''))"

text \<open>
  A post-auction loop whose spend-update timer, and a router whose reauthorize timer,
  has fired five times with no response processed: the first tick sent a request, the
  fifth forced a retry.
\<close>

definition two_spendUpdates :: LocalBanker where
  "two_spendUpdates =
     run (codec_of None None None)
       [SpendUpdateTick, SpendUpdateTick, SpendUpdateTick, SpendUpdateTick, SpendUpdateTick]
       (LocalBanker_new POST_AUCTION ''pal'')"

definition two_reauthorizes :: LocalBanker where
  "two_reauthorizes =
     run (codec_of None None None)
       [ReauthorizeTick, ReauthorizeTick, ReauthorizeTick, ReauthorizeTick, ReauthorizeTick]
       (LocalBanker_new ROUTER ''router'')"

section \<open>The overlap guard of the periodic protocols\<close>

lemmas tick_defs =
  spendUpdate_def spendUpdate_send_def reauthorize_def reauthorize_send_def
  recordHit_def send_def Let_def issued_def spendUpdate_request_def reauthorize_request_def

lemma spendUpdate_tick:
  "issued st (spendUpdate c st) =
     (if spendUpdateInProgress st \<and> spendUpdateSkipped st + 1 \<le> 3 then []
      else [spendUpdate_request c st])"
  "spendUpdateSkipped (spendUpdate c st) =
     (if spendUpdateInProgress st \<and> spendUpdateSkipped st + 1 \<le> 3
      then spendUpdateSkipped st + 1 else 0)"
  "spendUpdateInProgress (spendUpdate c st)"
  "accounts (spendUpdate c st) = accounts st"
  "uninitializedAccounts (spendUpdate c st) = uninitializedAccounts st"
  by (simp_all add: tick_defs)

lemma spendUpdate_tick_events:
  "events (spendUpdate c st) = events st @
     (if spendUpdateInProgress st then
        (if spendUpdateSkipped st + 1 \<le> 3 then [Hit ''spendUpdate.inProgress'']
         else [Hit ''spendUpdate.inProgress'', Hit ''spendUpdate.forceRetry'',
               Hit ''spendUpdate.attempt''])
      else [Hit ''spendUpdate.attempt''])"
  by (simp add: tick_defs)

lemma reauthorize_tick:
  "issued st (reauthorize st) =
     (if reauthorizeInProgress st \<and> reauthorizeSkipped st + 1 \<le> 3 then []
      else [reauthorize_request st])"
  "reauthorizeSkipped (reauthorize st) =
     (if reauthorizeInProgress st \<and> reauthorizeSkipped st + 1 \<le> 3
      then reauthorizeSkipped st + 1 else 0)"
  "reauthorizeInProgress (reauthorize st)"
  "accounts (reauthorize st) = accounts st"
  "uninitializedAccounts (reauthorize st) = uninitializedAccounts st"
  by (simp_all add: tick_defs)

lemma reauthorize_tick_events:
  "events (reauthorize st) = events st @
     (if reauthorizeInProgress st then
        (if reauthorizeSkipped st + 1 \<le> 3 then [Hit ''reauthorize.inProgress'']
         else [Hit ''reauthorize.inProgress'', Hit ''reauthorize.forceRetry'',
               Hit ''reauthorize.attempt''])
      else [Hit ''reauthorize.attempt''])"
  by (simp add: tick_defs)

lemma skip_counters_bounded:
  "0 \<le> spendUpdateSkipped st \<Longrightarrow> spendUpdateSkipped st \<le> 3 \<Longrightarrow>
     0 \<le> spendUpdateSkipped (spendUpdate c st) \<and> spendUpdateSkipped (spendUpdate c st) \<le> 3"
  "0 \<le> reauthorizeSkipped st \<Longrightarrow> reauthorizeSkipped st \<le> 3 \<Longrightarrow>
     0 \<le> reauthorizeSkipped (reauthorize st) \<and> reauthorizeSkipped (reauthorize st) \<le> 3"
  by (simp_all add: spendUpdate_tick reauthorize_tick)

lemma spendUpdate_request_accounts:
  "spendUpdate_request c (spendUpdate c st) = spendUpdate_request c st"
  by (simp add: spendUpdate_request_def spendUpdate_tick)

lemma reauthorize_request_accounts:
  "reauthorize_request (reauthorize st) = reauthorize_request st"
  by (simp add: reauthorize_request_def reauthorize_tick)

lemma spendUpdate_four_ticks:
  assumes "\<not> spendUpdateInProgress st0"
  shows "(let s1 = spendUpdate c st0; s2 = spendUpdate c s1; s3 = spendUpdate c s2;
              s4 = spendUpdate c s3; s5 = spendUpdate c s4
          in issued st0 s1 = [spendUpdate_request c st0] \<and>
             issued s1 s2 = [] \<and> issued s2 s3 = [] \<and> issued s3 s4 = [] \<and>
             issued s4 s5 = [spendUpdate_request c st0] \<and>
             spendUpdateSkipped s4 = 3 \<and> spendUpdateSkipped s5 = 0 \<and>
             events s5 = events s4 @
               [Hit ''spendUpdate.inProgress'', Hit ''spendUpdate.forceRetry'',
                Hit ''spendUpdate.attempt''])"
  using assms unfolding Let_def
  by (simp add: spendUpdate_tick spendUpdate_tick_events spendUpdate_request_accounts)

lemma reauthorize_four_ticks:
  assumes "\<not> reauthorizeInProgress st0"
  shows "(let s1 = reauthorize st0; s2 = reauthorize s1; s3 = reauthorize s2;
              s4 = reauthorize s3; s5 = reauthorize s4
          in issued st0 s1 = [reauthorize_request st0] \<and>
             issued s1 s2 = [] \<and> issued s2 s3 = [] \<and> issued s3 s4 = [] \<and>
             issued s4 s5 = [reauthorize_request st0] \<and>
             reauthorizeSkipped s4 = 3 \<and> reauthorizeSkipped s5 = 0 \<and>
             events s5 = events s4 @
               [Hit ''reauthorize.inProgress'', Hit ''reauthorize.forceRetry'',
                Hit ''reauthorize.attempt''])"
  using assms unfolding Let_def
  by (simp add: reauthorize_tick reauthorize_tick_events reauthorize_request_accounts)

text \<open>
  Claim C1. For each periodic protocol (reauthorize, spend update): a tick that finds the
  in-progress flag set increments the skip counter and sends a request only when the
  incremented counter exceeds 3, and then the counter is back at zero; a tick that finds
  the flag clear sends a request. Hence, starting with the flag clear, the tick that
  sends the first request (\<open>s1\<close>) is followed by four ticks while that request is still
  outstanding (no response is processed): the first three of them (\<open>s2\<close>, \<open>s3\<close>, \<open>s4\<close>)
  send nothing and leave the counter at 3, and the fourth (\<open>s5\<close>) records the forced
  retry, sends a new request and resets the counter to zero.
\<close>

theorem overlap_guard_forced_retry:
  assumes "\<not> spendUpdateInProgress st0" and "\<not> reauthorizeInProgress st0"
  shows
    "issued st (spendUpdate c st) =
       (if spendUpdateInProgress st \<and> spendUpdateSkipped st + 1 \<le> 3 then []
        else [spendUpdate_request c st]) \<and>
     spendUpdateSkipped (spendUpdate c st) =
       (if spendUpdateInProgress st \<and> spendUpdateSkipped st + 1 \<le> 3
        then spendUpdateSkipped st + 1 else 0) \<and>
     issued st (reauthorize st) =
       (if reauthorizeInProgress st \<and> reauthorizeSkipped st + 1 \<le> 3 then []
        else [reauthorize_request st]) \<and>
     reauthorizeSkipped (reauthorize st) =
       (if reauthorizeInProgress st \<and> reauthorizeSkipped st + 1 \<le> 3
        then reauthorizeSkipped st + 1 else 0) \<and>
     (let s1 = spendUpdate c st0; s2 = spendUpdate c s1; s3 = spendUpdate c s2;
          s4 = spendUpdate c s3; s5 = spendUpdate c s4
      in issued st0 s1 = [spendUpdate_request c st0] \<and>
         issued s1 s2 = [] \<and> issued s2 s3 = [] \<and> issued s3 s4 = [] \<and>
         issued s4 s5 = [spendUpdate_request c st0] \<and>
         spendUpdateSkipped s4 = 3 \<and> spendUpdateSkipped s5 = 0 \<and>
         events s5 = events s4 @
           [Hit ''spendUpdate.inProgress'', Hit ''spendUpdate.forceRetry'',
            Hit ''spendUpdate.attempt'']) \<and>
     (let s1 = reauthorize st0; s2 = reauthorize s1; s3 = reauthorize s2;
          s4 = reauthorize s3; s5 = reauthorize s4
      in issued st0 s1 = [reauthorize_request st0] \<and>
         issued s1 s2 = [] \<and> issued s2 s3 = [] \<and> issued s3 s4 = [] \<and>
         issued s4 s5 = [reauthorize_request st0] \<and>
         reauthorizeSkipped s4 = 3 \<and> reauthorizeSkipped s5 = 0 \<and>
         events s5 = events s4 @
           [Hit ''reauthorize.inProgress'', Hit ''reauthorize.forceRetry'',
            Hit ''reauthorize.attempt''])"
proof -
  note su = spendUpdate_tick(1,2) [where st = st and c = c]
  note re = reauthorize_tick(1,2) [where st = st]
  note su4 = spendUpdate_four_ticks [OF assms(1), where c = c]
  note re4 = reauthorize_four_ticks [OF assms(2)]
  from su re su4 re4 show ?thesis by (intro conjI)
qed

theorem overlap_guard_forced_retry_witness:
  "\<not> spendUpdateInProgress (LocalBanker_new POST_AUCTION ''router'') \<and>
   \<not> reauthorizeInProgress (LocalBanker_new POST_AUCTION ''router'') \<and>
   (let c = codec_of None None None;
        st0 = LocalBanker_new POST_AUCTION ''router'';
        s1 = spendUpdate c st0; s2 = spendUpdate c s1; s3 = spendUpdate c s2;
        s4 = spendUpdate c s3; s5 = spendUpdate c s4
    in issued s1 s2 = [] \<and> issued s2 s3 = [] \<and> issued s3 s4 = [] \<and>
       issued s4 s5 = [spendUpdate_request c st0] \<and>
       spendUpdateSkipped s4 = 3 \<and> spendUpdateSkipped s5 = 0) \<and>
   (let st0 = LocalBanker_new POST_AUCTION ''router'';
        s1 = reauthorize st0; s2 = reauthorize s1; s3 = reauthorize s2;
        s4 = reauthorize s3; s5 = reauthorize s4
    in issued s1 s2 = [] \<and> issued s2 s3 = [] \<and> issued s3 s4 = [] \<and>
       issued s4 s5 = [reauthorize_request st0] \<and>
       reauthorizeSkipped s4 = 3 \<and> reauthorizeSkipped s5 = 0)"
proof -
  have h1: "\<not> spendUpdateInProgress (LocalBanker_new POST_AUCTION ''router'')"
    by (simp add: LocalBanker_new_def)
  have h2: "\<not> reauthorizeInProgress (LocalBanker_new POST_AUCTION ''router'')"
    by (simp add: LocalBanker_new_def)
  note run = overlap_guard_forced_retry
    [OF h1 h2, where c = "codec_of None None None", unfolded Let_def]
  show ?thesis
    unfolding Let_def using h1 h2 run by blast
qed

section \<open>Responses that fail\<close>

text \<open>
  Claim C7. A response with a status other than 200 to a spend-update or to a
  reauthorize request leaves the account store and the pending-registration set as they
  were and sends nothing: the handler clears the protocol's in-progress flag and records
  the protocol's failure event, and that is the whole difference between the state
  before and the state after.
\<close>

theorem transport_failure_leaves_state:
  assumes "status \<noteq> 200"
  shows
    "accounts (spendUpdate_onResponse c status body st) = accounts st \<and>
     uninitializedAccounts (spendUpdate_onResponse c status body st) =
       uninitializedAccounts st \<and>
     spendUpdate_onResponse c status body st =
       st\<lparr>spendUpdateInProgress := False,
          events := events st @ [Hit ''spendUpdate.failure'']\<rparr> \<and>
     accounts (reauthorize_onResponse c status body st) = accounts st \<and>
     uninitializedAccounts (reauthorize_onResponse c status body st) =
       uninitializedAccounts st \<and>
     reauthorize_onResponse c status body st =
       st\<lparr>reauthorizeInProgress := False,
          events := events st @ [Hit ''reauthorize.failure'']\<rparr>"
  using assms
  by (simp add: spendUpdate_onResponse_def reauthorize_onResponse_def recordHit_def)

theorem transport_failure_leaves_state_witness:
  "(503 :: int) \<noteq> 200 \<and>
   (let c = codec_of None None None;
        st = reauthorize (spendUpdate c (LocalBanker_new ROUTER ''router''))
    in spendUpdate_onResponse c 503 ''unavailable'' st =
         st\<lparr>spendUpdateInProgress := False,
            events := events st @ [Hit ''spendUpdate.failure'']\<rparr> \<and>
       reauthorize_onResponse c 503 ''unavailable'' st =
         st\<lparr>reauthorizeInProgress := False,
            events := events st @ [Hit ''reauthorize.failure'']\<rparr>)"
proof -
  have h: "(503 :: int) \<noteq> 200" by simp
  note inst = transport_failure_leaves_state [OF h, where body = "''unavailable''"]
  show ?thesis unfolding Let_def using h inst by blast
qed

text \<open>
  Claim C8. When the body of a 200 response to a spend-update or to a reauthorize request
  does not parse, the handler records the protocol's parsing-error event, which is not
  the event of a transport failure, and returns at that point: the account store and the
  pending-registration set are as before, nothing is sent, the success event is not
  recorded, and the handler ends normally with the in-progress flag cleared.
\<close>

theorem parse_failure_aborts:
  assumes "parseStatuses c body = None" and "parseRecords c body = None"
  shows
    "accounts (spendUpdate_onResponse c 200 body st) = accounts st \<and>
     uninitializedAccounts (spendUpdate_onResponse c 200 body st) =
       uninitializedAccounts st \<and>
     spendUpdate_onResponse c 200 body st =
       st\<lparr>spendUpdateInProgress := False,
          events := events st @ [Hit ''spendUpdate.jsonParsingError'']\<rparr> \<and>
     Hit ''spendUpdate.jsonParsingError'' \<noteq> Hit ''spendUpdate.failure'' \<and>
     accounts (reauthorize_onResponse c 200 body st) = accounts st \<and>
     uninitializedAccounts (reauthorize_onResponse c 200 body st) =
       uninitializedAccounts st \<and>
     reauthorize_onResponse c 200 body st =
       st\<lparr>reauthorizeInProgress := False,
          events := events st @ [Hit ''reautorize.jsonParsingError'']\<rparr> \<and>
     Hit ''reautorize.jsonParsingError'' \<noteq> Hit ''reauthorize.failure''"
  using assms
  by (simp add: spendUpdate_onResponse_def reauthorize_onResponse_def recordHit_def)

theorem parse_failure_aborts_witness:
  "parseStatuses (codec_of None None None) ''<html>'' = None \<and>
   parseRecords (codec_of None None None) ''<html>'' = None \<and>
   (let c = codec_of None None None;
        st = reauthorize (spendUpdate c (LocalBanker_new ROUTER ''router''))
    in spendUpdate_onResponse c 200 ''<html>'' st =
         st\<lparr>spendUpdateInProgress := False,
            events := events st @ [Hit ''spendUpdate.jsonParsingError'']\<rparr> \<and>
       reauthorize_onResponse c 200 ''<html>'' st =
         st\<lparr>reauthorizeInProgress := False,
            events := events st @ [Hit ''reautorize.jsonParsingError'']\<rparr>)"
proof -
  have h1: "parseStatuses (codec_of None None None) ''<html>'' = None"
    by (simp add: codec_of_def)
  have h2: "parseRecords (codec_of None None None) ''<html>'' = None"
    by (simp add: codec_of_def)
  note inst = parse_failure_aborts [OF h1 h2]
  show ?thesis unfolding Let_def using h1 h2 inst by blast
qed

section \<open>Keys and their rendering\<close>

lemma split_colon_nonempty: "split_colon s \<noteq> []"
  by (induction s) (auto split: list.splits)

lemma toString_Cons: "segs \<noteq> [] \<Longrightarrow> toString (seg # segs) = seg @ '':'' @ toString segs"
  by (cases segs) auto

lemma toString_Cons_char: "toString ((ch # seg) # segs) = ch # toString (seg # segs)"
  by (cases segs) auto

lemma toString_split_colon: "toString (split_colon s) = s"
proof (induction s)
  case Nil
  show ?case by simp
next
  case (Cons ch s)
  obtain seg segs where sc: "split_colon s = seg # segs"
    using split_colon_nonempty [of s] by (cases "split_colon s") auto
  show ?case
  proof (cases "ch = CHR '':''")
    case True
    with Cons sc show ?thesis by (simp add: toString_Cons)
  next
    case False
    with Cons sc show ?thesis by (simp add: toString_Cons_char)
  qed
qed

lemma toString_AccountKey: "toString (AccountKey s) = s"
  by (simp add: AccountKey_def toString_split_colon)

lemma map_of_update:
  "map_of (AList.update k v al) k' = (if k' = k then Some v else map_of al k')"
  by (simp add: update_conv')

section \<open>Spend-update responses and the replace protocol\<close>

lemma replaceAccount_fields:
  "httpClient (replaceAccount key st) = httpClient st @ [replace_request key]"
  "accounts (replaceAccount key st) = accounts st"
  "uninitializedAccounts (replaceAccount key st) = uninitializedAccounts st"
  "answered (replaceAccount key st) = answered st"
  "events (replaceAccount key st) = events st @ [Hit ''updateOutOfSync.attempts'']"
  "spendUpdateInProgress (replaceAccount key st) = spendUpdateInProgress st"
  "reauthorizeInProgress (replaceAccount key st) = reauthorizeInProgress st"
  by (simp_all add: replaceAccount_def replace_request_def send_def recordHit_def)

lemma spendUpdate_entries_fields:
  "httpClient (spendUpdate_entries es st) =
     httpClient st @ map (\<lambda>e. replace_request (AccountKey (fst e)))
                        (filter (\<lambda>e. snd e \<noteq> ''no need'' \<and> snd e \<noteq> ''success'') es)"
  "accounts (spendUpdate_entries es st) = accounts st"
  "uninitializedAccounts (spendUpdate_entries es st) = uninitializedAccounts st"
  "answered (spendUpdate_entries es st) = answered st"
  "spendUpdateInProgress (spendUpdate_entries es st) = spendUpdateInProgress st"
  "reauthorizeInProgress (spendUpdate_entries es st) = reauthorizeInProgress st"
  by (induction es st rule: spendUpdate_entries.induct;
      simp add: replaceAccount_fields)+

lemma spendUpdate_onResponse_success:
  assumes "parseStatuses c body = Some es"
  shows
    "issued st (spendUpdate_onResponse c 200 body st) =
       map (\<lambda>e. replace_request (AccountKey (fst e)))
           (filter (\<lambda>e. snd e \<noteq> ''no need'' \<and> snd e \<noteq> ''success'') es)"
    "accounts (spendUpdate_onResponse c 200 body st) = accounts st"
    "uninitializedAccounts (spendUpdate_onResponse c 200 body st) = uninitializedAccounts st"
  using assms
  by (simp_all add: spendUpdate_onResponse_def issued_def recordHit_def
      spendUpdate_entries_fields Let_def)

lemma replaceAccount_onResponse_accounts:
  "accounts (replaceAccount_onResponse c key status body st) =
     (if status = 200 then snd (replaceFromJsonString c body (accounts st))
      else accounts st)"
  by (simp add: replaceAccount_onResponse_def recordHit_def Let_def split: prod.splits)

lemma replaceFromJsonString_lookup:
  "map_of (accountsMap (snd (replaceFromJsonString c body accs))) k =
     (case decodeAccount c body of
        None \<Rightarrow> map_of (accountsMap accs) k
      | Some named \<Rightarrow>
          if k = fst named then Some (snd named) else map_of (accountsMap accs) k)"
  by (simp add: replaceFromJsonString_def map_of_update split: option.splits prod.splits)

text \<open>
  Claim C3, as the code has it. In the processing of a parsed spend-update response, an
  entry triggers the replace protocol for its account exactly when its status string is
  neither "no need" nor "success": the requests the handler sends are the replace
  fetches of the entries with any other status, one per entry and in the order of the
  entries, each addressed to \<open>/accounts/\<close> followed by the entry's key; entries with
  the status "no need" or "success" send nothing. The string "no-op" has no special
  standing: it is one of the other statuses.
\<close>

theorem spendUpdate_replace_trigger:
  assumes "parseStatuses c body = Some es"
  shows
    "issued st (spendUpdate_onResponse c 200 body st) =
       map (\<lambda>e. replace_request (AccountKey (fst e)))
           (filter (\<lambda>e. snd e \<noteq> ''no need'' \<and> snd e \<noteq> ''success'') es) \<and>
     map url (issued st (spendUpdate_onResponse c 200 body st)) =
       map (\<lambda>e. ''/accounts/'' @ fst e)
           (filter (\<lambda>e. snd e \<noteq> ''no need'' \<and> snd e \<noteq> ''success'') es)"
  using assms
  by (simp add: spendUpdate_onResponse_success replace_request_def toString_AccountKey
      comp_def)

theorem spendUpdate_replace_trigger_witness:
  "parseStatuses
     (codec_of (Some [(''a:router'', ''success''), (''b:router'', ''no need''),
                      (''c:router'', ''no-op''), (''d:router'', ''desync'')]) None None)
     ''statuses'' =
     Some [(''a:router'', ''success''), (''b:router'', ''no need''),
           (''c:router'', ''no-op''), (''d:router'', ''desync'')] \<and>
   map url
     (issued (LocalBanker_new POST_AUCTION ''router'')
        (spendUpdate_onResponse
           (codec_of (Some [(''a:router'', ''success''), (''b:router'', ''no need''),
                            (''c:router'', ''no-op''), (''d:router'', ''desync'')]) None None)
           200 ''statuses'' (LocalBanker_new POST_AUCTION ''router''))) =
     [''/accounts/c:router'', ''/accounts/d:router'']"
proof -
  have h: "parseStatuses
     (codec_of (Some [(''a:router'', ''success''), (''b:router'', ''no need''),
                      (''c:router'', ''no-op''), (''d:router'', ''desync'')]) None None)
     ''statuses'' =
     Some [(''a:router'', ''success''), (''b:router'', ''no need''),
           (''c:router'', ''no-op''), (''d:router'', ''desync'')]"
    by (simp add: codec_of_def)
  note inst = spendUpdate_replace_trigger
    [OF h, where st = "LocalBanker_new POST_AUCTION ''router''", THEN conjunct2]
  have "map url
       (issued (LocalBanker_new POST_AUCTION ''router'')
          (spendUpdate_onResponse
             (codec_of (Some [(''a:router'', ''success''), (''b:router'', ''no need''),
                              (''c:router'', ''no-op''), (''d:router'', ''desync'')]) None None)
             200 ''statuses'' (LocalBanker_new POST_AUCTION ''router''))) =
       [''/accounts/c:router'', ''/accounts/d:router'']"
    unfolding inst by simp
  with h show ?thesis by blast
qed

text \<open>
  Claim C3 as the spec words it names the statuses "no-op" and "success". On the code an
  entry with the status "no-op" does trigger a replace fetch, and an entry with the
  status "no need", which is neither "no-op" nor "success", triggers none.
\<close>

theorem spendUpdate_no_op_counterexample:
  "issued (LocalBanker_new POST_AUCTION ''router'')
     (spendUpdate_onResponse
        (codec_of (Some [(''camp1:strategy1:router'', ''no-op'')]) None None)
        200 ''statuses'' (LocalBanker_new POST_AUCTION ''router'')) =
     [replace_request [''camp1'', ''strategy1'', ''router'']] \<and>
   issued (LocalBanker_new POST_AUCTION ''router'')
     (spendUpdate_onResponse
        (codec_of (Some [(''camp1:strategy1:router'', ''no need'')]) None None)
        200 ''statuses'' (LocalBanker_new POST_AUCTION ''router'')) = []"
  by (simp add: spendUpdate_onResponse_def codec_of_def LocalBanker_new_def issued_def
      recordHit_def replaceAccount_def send_def AccountKey_def replace_request_def)

text \<open>
  Claim C4, as the code has it. A spend-update response holding exactly the entry that
  maps "camp1:strategy1:router" to "desync" triggers exactly one replace fetch. The fetch
  is addressed to the key as it was received, \<open>/accounts/camp1:strategy1:router\<close>:
  the instance's suffix is not stripped. The handler itself changes no account and not
  the pending-registration set. When the fetch is answered, the store changes only
  through replaceFromJsonString on the body of a 200 answer, which overwrites the one
  account that body names and leaves every other account as it was.
\<close>

theorem spendUpdate_desync_scenario:
  assumes "parseStatuses c body = Some [(''camp1:strategy1:router'', ''desync'')]"
  shows
    "issued st (spendUpdate_onResponse c 200 body st) =
       [\<lparr>verb = GET,
         url = ''/accounts/camp1:strategy1:router'',
         payload = None,
         onResponse = ReplaceAccountCb [''camp1'', ''strategy1'', ''router'']\<rparr>] \<and>
     accounts (spendUpdate_onResponse c 200 body st) = accounts st \<and>
     uninitializedAccounts (spendUpdate_onResponse c 200 body st) =
       uninitializedAccounts st \<and>
     accounts (replaceAccount_onResponse c [''camp1'', ''strategy1'', ''router'']
                 status answer st') =
       (if status = 200 then snd (replaceFromJsonString c answer (accounts st'))
        else accounts st') \<and>
     map_of (accountsMap (snd (replaceFromJsonString c answer (accounts st')))) k =
       (case decodeAccount c answer of
          None \<Rightarrow> map_of (accountsMap (accounts st')) k
        | Some named \<Rightarrow>
            if k = fst named then Some (snd named)
            else map_of (accountsMap (accounts st')) k)"
proof -
  have key: "AccountKey ''camp1:strategy1:router'' = [''camp1'', ''strategy1'', ''router'']"
    by (simp add: AccountKey_def)
  have "issued st (spendUpdate_onResponse c 200 body st) =
       [replace_request [''camp1'', ''strategy1'', ''router'']]"
    using spendUpdate_onResponse_success(1) [OF assms, of st] by (simp add: key)
  then have first: "issued st (spendUpdate_onResponse c 200 body st) =
       [\<lparr>verb = GET,
         url = ''/accounts/camp1:strategy1:router'',
         payload = None,
         onResponse = ReplaceAccountCb [''camp1'', ''strategy1'', ''router'']\<rparr>]"
    by (simp add: replace_request_def)
  note rest = spendUpdate_onResponse_success(2,3) [OF assms, of st]
  note answer = replaceAccount_onResponse_accounts replaceFromJsonString_lookup
  from first rest answer show ?thesis by (intro conjI)
qed

theorem spendUpdate_desync_scenario_witness:
  "parseStatuses (codec_of (Some [(''camp1:strategy1:router'', ''desync'')]) None None)
     ''statuses'' = Some [(''camp1:strategy1:router'', ''desync'')] \<and>
   issued (LocalBanker_new POST_AUCTION ''router'')
     (spendUpdate_onResponse
        (codec_of (Some [(''camp1:strategy1:router'', ''desync'')]) None None)
        200 ''statuses'' (LocalBanker_new POST_AUCTION ''router'')) =
     [\<lparr>verb = GET,
       url = ''/accounts/camp1:strategy1:router'',
       payload = None,
       onResponse = ReplaceAccountCb [''camp1'', ''strategy1'', ''router'']\<rparr>]"
proof -
  have h: "parseStatuses (codec_of (Some [(''camp1:strategy1:router'', ''desync'')]) None None)
     ''statuses'' = Some [(''camp1:strategy1:router'', ''desync'')]"
    by (simp add: codec_of_def)
  note inst = spendUpdate_desync_scenario
    [OF h, where st = "LocalBanker_new POST_AUCTION ''router''", THEN conjunct1]
  from h inst show ?thesis by (intro conjI)
qed

text \<open>
  Claim C4 as the spec words it has the fetch addressed to "camp1:strategy1". On the code
  the one fetch goes to the path of the full key, and no fetch goes to the path of the
  key without the suffix.
\<close>

theorem spendUpdate_desync_address_counterexample:
  "map url
     (issued (LocalBanker_new POST_AUCTION ''router'')
        (spendUpdate_onResponse
           (codec_of (Some [(''camp1:strategy1:router'', ''desync'')]) None None)
           200 ''statuses'' (LocalBanker_new POST_AUCTION ''router''))) =
     [''/accounts/camp1:strategy1:router''] \<and>
   ''/accounts/camp1:strategy1'' \<notin> set (map url
     (issued (LocalBanker_new POST_AUCTION ''router'')
        (spendUpdate_onResponse
           (codec_of (Some [(''camp1:strategy1:router'', ''desync'')]) None None)
           200 ''statuses'' (LocalBanker_new POST_AUCTION ''router''))))"
  by (simp add: spendUpdate_onResponse_def codec_of_def LocalBanker_new_def issued_def
      recordHit_def replaceAccount_def send_def AccountKey_def)

section \<open>Reauthorize responses\<close>

lemma setRate_fields:
  "httpClient (setRate key st) = httpClient st @ [setRate_request key (spendRate st)]"
  "accounts (setRate key st) = accounts st"
  "spendRate (setRate key st) = spendRate st"
  "uninitializedAccounts (setRate key st) = uninitializedAccounts st"
  "answered (setRate key st) = answered st"
  "spendUpdateInProgress (setRate key st) = spendUpdateInProgress st"
  "reauthorizeInProgress (setRate key st) = reauthorizeInProgress st"
  by (simp_all add: setRate_def setRate_request_def send_def recordHit_def)

lemma reauthorize_account_fields:
  "accounts (reauthorize_account r st) =
     snd (accumulateBalance (accounts st) (AccountKey (name r)) (balance r))"
  "httpClient (reauthorize_account r st) = httpClient st @
     (if spendRate st < rate r then [setRate_request (AccountKey (name r)) (spendRate st)]
      else [])"
  "spendRate (reauthorize_account r st) = spendRate st"
  "uninitializedAccounts (reauthorize_account r st) = uninitializedAccounts st"
  "answered (reauthorize_account r st) = answered st"
  "spendUpdateInProgress (reauthorize_account r st) = spendUpdateInProgress st"
  "reauthorizeInProgress (reauthorize_account r st) = reauthorizeInProgress st"
  by (simp_all add: reauthorize_account_def Let_def recordLevel_def setRate_fields
      split: prod.splits)

lemma fold_reauthorize_account_fields:
  "accounts (fold reauthorize_account rs st) =
     fold (\<lambda>r accs. snd (accumulateBalance accs (AccountKey (name r)) (balance r))) rs
       (accounts st)"
  "httpClient (fold reauthorize_account rs st) = httpClient st @
     map (\<lambda>r. setRate_request (AccountKey (name r)) (spendRate st))
       (filter (\<lambda>r. spendRate st < rate r) rs)"
  "spendRate (fold reauthorize_account rs st) = spendRate st"
  "uninitializedAccounts (fold reauthorize_account rs st) = uninitializedAccounts st"
  "answered (fold reauthorize_account rs st) = answered st"
  "spendUpdateInProgress (fold reauthorize_account rs st) = spendUpdateInProgress st"
  "reauthorizeInProgress (fold reauthorize_account rs st) = reauthorizeInProgress st"
  by (induction rs arbitrary: st; simp add: reauthorize_account_fields)+

lemma reauthorize_onResponse_success:
  assumes "parseRecords c body = Some rs"
  shows
    "accounts (reauthorize_onResponse c 200 body st) =
       fold (\<lambda>r accs. snd (accumulateBalance accs (AccountKey (name r)) (balance r))) rs
         (accounts st)"
    "issued st (reauthorize_onResponse c 200 body st) =
       map (\<lambda>r. setRate_request (AccountKey (name r)) (spendRate st))
         (filter (\<lambda>r. spendRate st < rate r) rs)"
    "uninitializedAccounts (reauthorize_onResponse c 200 body st) = uninitializedAccounts st"
  using assms
  by (simp_all add: reauthorize_onResponse_def issued_def recordHit_def Let_def
      fold_reauthorize_account_fields)

lemma accumulateBalance_lookup:
  "map_of (accountsMap (snd (accumulateBalance accs key b))) k =
     (if k = key then
        Some (case map_of (accountsMap accs) key of
                None \<Rightarrow> \<lparr>accBalance = b, accSpend = 0, accRate = defaultRate accs\<rparr>
              | Some a \<Rightarrow> a\<lparr>accBalance := b\<rparr>)
      else map_of (accountsMap accs) k)"
  by (simp add: accumulateBalance_def map_of_update split: option.splits)

lemma AccountKey_suffixed_differs: "AccountKey (n @ '':'' @ suffix) \<noteq> AccountKey n"
proof
  assume "AccountKey (n @ '':'' @ suffix) = AccountKey n"
  then have "toString (AccountKey (n @ '':'' @ suffix)) = toString (AccountKey n)"
    by simp
  then show False by (simp add: toString_AccountKey)
qed

text \<open>
  Claim C2, as the code has it. For every record of a parsed reauthorize response the
  handler builds the account key from the received name as it is and calls
  accumulateBalance on that key with the fresh balance: the account store after the
  response is the store before it with accumulateBalance applied record by record at the
  key of the received name. The instance's suffix is not applied to that key. The key of
  the received name renders as the received name and differs from the key of the name
  with the suffix appended; the balance replacement is applied to the former, and the
  account under the latter keeps its record.
\<close>

theorem reauthorize_accumulates_at_received_name:
  assumes "parseRecords c body = Some rs"
  shows
    "accounts (reauthorize_onResponse c 200 body st) =
       fold (\<lambda>r accs. snd (accumulateBalance accs (AccountKey (name r)) (balance r))) rs
         (accounts st) \<and>
     toString (AccountKey n) = n \<and>
     AccountKey (n @ '':'' @ accountSuffix st) \<noteq> AccountKey n \<and>
     getBalance (snd (accumulateBalance accs (AccountKey n) b)) (AccountKey n) = b \<and>
     map_of (accountsMap (snd (accumulateBalance accs (AccountKey n) b)))
         (AccountKey (n @ '':'' @ accountSuffix st)) =
       map_of (accountsMap accs) (AccountKey (n @ '':'' @ accountSuffix st))"
proof -
  note store = reauthorize_onResponse_success(1) [OF assms, of st]
  note render = toString_AccountKey [of n]
  note differs = AccountKey_suffixed_differs [of n "accountSuffix st"]
  have fresh: "getBalance (snd (accumulateBalance accs (AccountKey n) b)) (AccountKey n) = b"
    by (simp add: getBalance_def accumulateBalance_lookup split: option.splits)
  have other: "map_of (accountsMap (snd (accumulateBalance accs (AccountKey n) b)))
         (AccountKey (n @ '':'' @ accountSuffix st)) =
       map_of (accountsMap accs) (AccountKey (n @ '':'' @ accountSuffix st))"
    using differs by (simp add: accumulateBalance_lookup)
  from store render differs fresh other show ?thesis by (intro conjI)
qed

theorem reauthorize_accumulates_at_received_name_witness:
  "parseRecords
     (codec_of None (Some [\<lparr>name = ''camp1:strategy1:router'', balance = 5000000,
                            rate = 0\<rparr>]) None) ''records'' =
     Some [\<lparr>name = ''camp1:strategy1:router'', balance = 5000000, rate = 0\<rparr>] \<and>
   accounts
     (reauthorize_onResponse
        (codec_of None (Some [\<lparr>name = ''camp1:strategy1:router'', balance = 5000000,
                               rate = 0\<rparr>]) None)
        200 ''records'' router_with_account) =
     \<lparr>accountsMap =
        [([''camp1'', ''strategy1'', ''router''],
          \<lparr>accBalance = 5000000, accSpend = 0, accRate = 100000\<rparr>)],
      defaultRate = 100000\<rparr>"
proof -
  have h: "parseRecords
     (codec_of None (Some [\<lparr>name = ''camp1:strategy1:router'', balance = 5000000,
                            rate = 0\<rparr>]) None) ''records'' =
     Some [\<lparr>name = ''camp1:strategy1:router'', balance = 5000000, rate = 0\<rparr>]"
    by (simp add: codec_of_def)
  note inst = reauthorize_accumulates_at_received_name
    [OF h, where st = router_with_account, THEN conjunct1]
  have "fold (\<lambda>r accs. snd (accumulateBalance accs (AccountKey (name r)) (balance r)))
          [\<lparr>name = ''camp1:strategy1:router'', balance = 5000000, rate = 0\<rparr>]
          (accounts router_with_account) =
        \<lparr>accountsMap =
           [([''camp1'', ''strategy1'', ''router''],
             \<lparr>accBalance = 5000000, accSpend = 0, accRate = 100000\<rparr>)],
         defaultRate = 100000\<rparr>"
    by code_simp
  with h inst show ?thesis by simp
qed

text \<open>
  Claim C2 as the spec words it has the suffix applied to the received name before
  accumulateBalance is called. On the code, a record named "camp1:strategy1" arriving
  at the router above puts the fresh balance under the key of that name, and the replica
  under the name with the suffix applied, "camp1:strategy1:router", keeps its balance.
\<close>

theorem reauthorize_suffix_counterexample:
  "AccountKey (''camp1:strategy1'' @ '':'' @ accountSuffix router_with_account) =
     [''camp1'', ''strategy1'', ''router''] \<and>
   getBalance (accounts router_with_account) [''camp1'', ''strategy1'', ''router''] =
     1000000 \<and>
   getBalance
     (accounts
        (reauthorize_onResponse
           (codec_of None (Some [\<lparr>name = ''camp1:strategy1'', balance = 5000000,
                                  rate = 0\<rparr>]) None)
           200 ''records'' router_with_account))
     [''camp1'', ''strategy1'', ''router''] = 1000000 \<and>
   getBalance
     (accounts
        (reauthorize_onResponse
           (codec_of None (Some [\<lparr>name = ''camp1:strategy1'', balance = 5000000,
                                  rate = 0\<rparr>]) None)
           200 ''records'' router_with_account))
     [''camp1'', ''strategy1''] = 5000000"
  by code_simp

text \<open>
  Claim C6, as the code has it. In the processing of a parsed reauthorize response a
  rate update is sent for a record exactly when the rate returned in that record exceeds
  the spend rate configured on the banker, its \<open>spendRate\<close> member (the value
  \<open>setSpendRate\<close> sets): the requests the handler sends are the rate updates of the
  records whose rate is greater than it, one per record and in the order of the records.
  The rate stored with the account itself is not consulted. A rate update is a POST to
  \<open>/accounts/\<close>, the name of the account, \<open>/rate\<close>, whose payload is the object
  with the one member "USD/1M" holding the banker's configured spend rate.
\<close>

theorem reauthorize_rate_update:
  assumes "parseRecords c body = Some rs"
  shows
    "issued st (reauthorize_onResponse c 200 body st) =
       map (\<lambda>r. setRate_request (AccountKey (name r)) (spendRate st))
         (filter (\<lambda>r. spendRate st < rate r) rs) \<and>
     setRate_request (AccountKey n) (spendRate st) =
       \<lparr>verb = POST,
        url = ''/accounts/'' @ n @ ''/rate'',
        payload = Some (JObj [(''USD/1M'', JInt (spendRate st))]),
        onResponse = SetRateCb\<rparr> \<and>
     issued st (setRate key st) = [setRate_request key (spendRate st)] \<and>
     spendRate (setSpendRate v st) = v"
proof -
  note sent = reauthorize_onResponse_success(2) [OF assms, of st]
  have shape: "setRate_request (AccountKey n) (spendRate st) =
       \<lparr>verb = POST,
        url = ''/accounts/'' @ n @ ''/rate'',
        payload = Some (JObj [(''USD/1M'', JInt (spendRate st))]),
        onResponse = SetRateCb\<rparr>"
    by (simp add: setRate_request_def toString_AccountKey)
  have direct: "issued st (setRate key st) = [setRate_request key (spendRate st)]"
    by (simp add: issued_def setRate_fields)
  have conf: "spendRate (setSpendRate v st) = v"
    by (simp add: setSpendRate_def)
  from sent shape direct conf show ?thesis by (intro conjI)
qed

theorem reauthorize_rate_update_witness:
  "parseRecords
     (codec_of None
        (Some [\<lparr>name = ''a:router'', balance = 10, rate = 100001\<rparr>,
               \<lparr>name = ''b:router'', balance = 20, rate = 100000\<rparr>,
               \<lparr>name = ''c:router'', balance = 30, rate = 99999\<rparr>]) None)
     ''records'' =
     Some [\<lparr>name = ''a:router'', balance = 10, rate = 100001\<rparr>,
           \<lparr>name = ''b:router'', balance = 20, rate = 100000\<rparr>,
           \<lparr>name = ''c:router'', balance = 30, rate = 99999\<rparr>] \<and>
   issued (LocalBanker_new ROUTER ''router'')
     (reauthorize_onResponse
        (codec_of None
           (Some [\<lparr>name = ''a:router'', balance = 10, rate = 100001\<rparr>,
                  \<lparr>name = ''b:router'', balance = 20, rate = 100000\<rparr>,
                  \<lparr>name = ''c:router'', balance = 30, rate = 99999\<rparr>]) None)
        200 ''records'' (LocalBanker_new ROUTER ''router'')) =
     [\<lparr>verb = POST,
       url = ''/accounts/a:router/rate'',
       payload = Some (JObj [(''USD/1M'', JInt 100000)]),
       onResponse = SetRateCb\<rparr>]"
proof -
  have h: "parseRecords
     (codec_of None
        (Some [\<lparr>name = ''a:router'', balance = 10, rate = 100001\<rparr>,
               \<lparr>name = ''b:router'', balance = 20, rate = 100000\<rparr>,
               \<lparr>name = ''c:router'', balance = 30, rate = 99999\<rparr>]) None)
     ''records'' =
     Some [\<lparr>name = ''a:router'', balance = 10, rate = 100001\<rparr>,
           \<lparr>name = ''b:router'', balance = 20, rate = 100000\<rparr>,
           \<lparr>name = ''c:router'', balance = 30, rate = 99999\<rparr>]"
    by (simp add: codec_of_def)
  note inst = reauthorize_rate_update
    [OF h, where st = "LocalBanker_new ROUTER ''router''", THEN conjunct1]
  have rate: "spendRate (LocalBanker_new ROUTER ''router'') = 100000"
    by (simp add: LocalBanker_new_def)
  show ?thesis
    using h unfolding inst rate
    by (simp add: setRate_request_def toString_AccountKey)
qed

text \<open>
  Claim C6 as the spec words it compares the returned rate with the spend rate of the
  account. On the code the account's own rate plays no part, in either direction. At a
  router configured with 100000 whose account "camp1:strategy1:router" has the rate
  50000, a record returning the rate 80000 for that account exceeds the account's rate
  and sends nothing. When the account has the rate 200000, a record returning 150000
  does not exceed the account's rate and a rate update carrying 100000 is sent.
\<close>

theorem reauthorize_account_rate_counterexample:
  "spendRate (router_with_rate 50000) = 100000 \<and>
   map_of (accountsMap (accounts (router_with_rate 50000)))
     (AccountKey ''camp1:strategy1:router'') =
     Some \<lparr>accBalance = 1000000, accSpend = 0, accRate = 50000\<rparr> \<and>
   (50000 :: int) < 80000 \<and>
   issued (router_with_rate 50000)
     (reauthorize_onResponse
        (codec_of None (Some [\<lparr>name = ''camp1:strategy1:router'', balance = 5000000,
                               rate = 80000\<rparr>]) None)
        200 ''records'' (router_with_rate 50000)) = [] \<and>
   spendRate (router_with_rate 200000) = 100000 \<and>
   map_of (accountsMap (accounts (router_with_rate 200000)))
     (AccountKey ''camp1:strategy1:router'') =
     Some \<lparr>accBalance = 1000000, accSpend = 0, accRate = 200000\<rparr> \<and>
   \<not> (200000 :: int) < 150000 \<and>
   issued (router_with_rate 200000)
     (reauthorize_onResponse
        (codec_of None (Some [\<lparr>name = ''camp1:strategy1:router'', balance = 5000000,
                               rate = 150000\<rparr>]) None)
        200 ''records'' (router_with_rate 200000)) =
     [\<lparr>verb = POST,
       url = ''/accounts/camp1:strategy1:router/rate'',
       payload = Some (JObj [(''USD/1M'', JInt 100000)]),
       onResponse = SetRateCb\<rparr>]"
  by code_simp

section \<open>Lazy registration\<close>

lemma set_insert_erase:
  "set (set_insert x xs) = insert x (set xs)"
  "set (set_erase x xs) = set xs - {x}"
  "distinct xs \<Longrightarrow> distinct (set_insert x xs)"
  "distinct xs \<Longrightarrow> distinct (set_erase x xs)"
  by (auto simp: set_insert_def set_erase_def distinct_removeAll)

lemma addAccountImpl_eq:
  "addAccountImpl key st =
     (if exists (accounts st) key
      then st\<lparr>uninitializedAccounts := set_erase key (uninitializedAccounts st)\<rparr>
      else st\<lparr>uninitializedAccounts := set_insert key (uninitializedAccounts st),
              events := events st @ [Hit ''addAccount.attempts''],
              httpClient := httpClient st @ [register_request (type st) key]\<rparr>)"
  by (simp add: addAccountImpl_def Let_def recordHit_def send_def register_request_def)

lemma addAccountImpl_fields:
  "accounts (addAccountImpl key st) = accounts st"
  "type (addAccountImpl key st) = type st"
  "answered (addAccountImpl key st) = answered st"
  "spendUpdateInProgress (addAccountImpl key st) = spendUpdateInProgress st"
  "reauthorizeInProgress (addAccountImpl key st) = reauthorizeInProgress st"
  "httpClient (addAccountImpl key st) = httpClient st @
     (if exists (accounts st) key then [] else [register_request (type st) key])"
  "uninitializedAccounts (addAccountImpl key st) =
     (if exists (accounts st) key then set_erase key (uninitializedAccounts st)
      else set_insert key (uninitializedAccounts st))"
  by (simp_all add: addAccountImpl_eq)

lemma fold_addAccountImpl_fields:
  "accounts (fold addAccountImpl ks st) = accounts st"
  "type (fold addAccountImpl ks st) = type st"
  "answered (fold addAccountImpl ks st) = answered st"
  "spendUpdateInProgress (fold addAccountImpl ks st) = spendUpdateInProgress st"
  "reauthorizeInProgress (fold addAccountImpl ks st) = reauthorizeInProgress st"
  "httpClient (fold addAccountImpl ks st) = httpClient st @
     map (register_request (type st)) (filter (\<lambda>k. \<not> exists (accounts st) k) ks)"
  by (induction ks arbitrary: st; simp add: addAccountImpl_fields)+

lemma fold_addAccountImpl_pending:
  "distinct ks \<Longrightarrow> set ks \<inter> set (uninitializedAccounts st) = {} \<Longrightarrow>
     uninitializedAccounts (fold addAccountImpl ks st) =
       uninitializedAccounts st @ filter (\<lambda>k. \<not> exists (accounts st) k) ks"
proof (induction ks arbitrary: st)
  case Nil
  show ?case by simp
next
  case (Cons k ks)
  have notin: "k \<notin> set (uninitializedAccounts st)" using Cons.prems by auto
  have step: "uninitializedAccounts (addAccountImpl k st) =
      uninitializedAccounts st @ (if exists (accounts st) k then [] else [k])"
    using notin by (simp add: addAccountImpl_fields set_insert_def set_erase_def)
  have disj: "set ks \<inter> set (uninitializedAccounts (addAccountImpl k st)) = {}"
    using Cons.prems by (auto simp: step)
  have "distinct ks" using Cons.prems by simp
  from Cons.IH [OF this disj] show ?case
    by (simp add: step addAccountImpl_fields(1))
qed

lemma sweep_fields:
  "accounts (initializeAccountsPeriodic st) = accounts st"
  "answered (initializeAccountsPeriodic st) = answered st"
  "issued st (initializeAccountsPeriodic st) =
     map (register_request (type st))
       (filter (\<lambda>k. \<not> exists (accounts st) k) (uninitializedAccounts st))"
  by (simp_all add: initializeAccountsPeriodic_def Let_def recordCount_def
      fold_addAccountImpl_fields issued_def)

lemma sweep_pending:
  "distinct (uninitializedAccounts st) \<Longrightarrow>
     uninitializedAccounts (initializeAccountsPeriodic st) =
       filter (\<lambda>k. \<not> exists (accounts st) k) (uninitializedAccounts st)"
  by (simp add: initializeAccountsPeriodic_def Let_def recordCount_def
      fold_addAccountImpl_pending)

lemma registrations_map:
  "registrations key (map (register_request t) ks) =
     map (register_request t) (filter (\<lambda>k. k = key) ks)"
  by (induction ks) (auto simp: registrations_def register_request_def)

lemma distinct_filter_eq:
  "distinct ks \<Longrightarrow>
     filter (\<lambda>k. P k \<and> k = key) ks = (if key \<in> set ks \<and> P key then [key] else [])"
  by (induction ks) auto

lemma sweep_registrations:
  "distinct (uninitializedAccounts st) \<Longrightarrow>
     registrations key (issued st (initializeAccountsPeriodic st)) =
       (if key \<in> set (uninitializedAccounts st) \<and> \<not> exists (accounts st) key
        then [register_request (type st) key] else [])"
  by (simp add: sweep_fields registrations_map distinct_filter_eq)

lemma addAccount_eq:
  "addAccount key st =
     (if exists (accounts st) (AccountKey (toString key @ '':'' @ accountSuffix st))
      then st\<lparr>uninitializedAccounts :=
                set_erase (AccountKey (toString key @ '':'' @ accountSuffix st))
                  (uninitializedAccounts st)\<rparr>
      else st\<lparr>uninitializedAccounts :=
                set_insert (AccountKey (toString key @ '':'' @ accountSuffix st))
                  (uninitializedAccounts st),
              events := events st @ [Hit ''addAccount.attempts''],
              httpClient := httpClient st @
                [register_request (type st)
                   (AccountKey (toString key @ '':'' @ accountSuffix st))]\<rparr>)"
  by (simp add: addAccount_def addAccountImpl_eq)

lemma addAccount_twice:
  assumes "\<not> exists (accounts st) (AccountKey (toString key @ '':'' @ accountSuffix st))"
  shows
    "uninitializedAccounts (addAccount key (addAccount key st)) =
       set_insert (AccountKey (toString key @ '':'' @ accountSuffix st))
         (uninitializedAccounts st)"
    "issued st (addAccount key (addAccount key st)) =
       [register_request (type st) (AccountKey (toString key @ '':'' @ accountSuffix st)),
        register_request (type st) (AccountKey (toString key @ '':'' @ accountSuffix st))]"
    "accounts (addAccount key (addAccount key st)) = accounts st"
    "type (addAccount key (addAccount key st)) = type st"
  using assms by (simp_all add: addAccount_eq issued_def set_insert_def)

lemma count_list_set_insert:
  "distinct xs \<Longrightarrow> count_list (set_insert x xs) x = 1"
  by (induction xs) (auto simp: set_insert_def)

text \<open>
  Claim C5. \<open>addAccount\<close> forms the fully qualified key, the rendering of the given
  key followed by a colon and the instance's suffix. If that key exists in the account
  store, the call erases it from the pending-registration set and returns: nothing is
  sent and nothing recorded. Otherwise the call inserts it into the pending set and
  sends a registration request, a POST to \<open>/accounts\<close> whose payload carries the
  rendering of the key as "accountName" and the role tag "Router" or "PostAuction" as
  "accountType". When \<open>addAccount\<close> is called twice for a key that is not in the store,
  with no response processed in between, the pending set holds the key exactly once (the
  second call leaves the set as the first one made it) and the set stays free of
  repetitions; each of the two calls sends its own registration request, and a periodic
  sweep that follows sends exactly one registration request for the key.
\<close>

theorem addAccount_pending_once:
  assumes "\<not> exists (accounts st) (AccountKey (toString key @ '':'' @ accountSuffix st))"
    and "distinct (uninitializedAccounts st)"
  shows
    "addAccount k s =
       (if exists (accounts s) (AccountKey (toString k @ '':'' @ accountSuffix s))
        then s\<lparr>uninitializedAccounts :=
                 set_erase (AccountKey (toString k @ '':'' @ accountSuffix s))
                   (uninitializedAccounts s)\<rparr>
        else s\<lparr>uninitializedAccounts :=
                 set_insert (AccountKey (toString k @ '':'' @ accountSuffix s))
                   (uninitializedAccounts s),
               events := events s @ [Hit ''addAccount.attempts''],
               httpClient := httpClient s @
                 [register_request (type s)
                    (AccountKey (toString k @ '':'' @ accountSuffix s))]\<rparr>) \<and>
     set (set_erase x xs) = set xs - {x} \<and>
     set (set_insert x xs) = insert x (set xs) \<and>
     register_request t fullKey =
       \<lparr>verb = POST,
        url = ''/accounts'',
        payload = Some (JObj
          [(''accountName'', JStr (toString fullKey)),
           (''accountType'',
              JStr (case t of ROUTER \<Rightarrow> ''Router'' | POST_AUCTION \<Rightarrow> ''PostAuction''))]),
        onResponse = AddAccountCb fullKey\<rparr> \<and>
     count_list (uninitializedAccounts (addAccount key (addAccount key st)))
       (AccountKey (toString key @ '':'' @ accountSuffix st)) = 1 \<and>
     uninitializedAccounts (addAccount key (addAccount key st)) =
       uninitializedAccounts (addAccount key st) \<and>
     distinct (uninitializedAccounts (addAccount key (addAccount key st))) \<and>
     issued st (addAccount key (addAccount key st)) =
       [register_request (type st) (AccountKey (toString key @ '':'' @ accountSuffix st)),
        register_request (type st) (AccountKey (toString key @ '':'' @ accountSuffix st))] \<and>
     registrations (AccountKey (toString key @ '':'' @ accountSuffix st))
       (issued (addAccount key (addAccount key st))
          (initializeAccountsPeriodic (addAccount key (addAccount key st)))) =
       [register_request (type st) (AccountKey (toString key @ '':'' @ accountSuffix st))]"
proof -
  let ?full = "AccountKey (toString key @ '':'' @ accountSuffix st)"
  let ?s2 = "addAccount key (addAccount key st)"
  note twice = addAccount_twice [OF assms(1)]
  have once: "count_list (uninitializedAccounts ?s2) ?full = 1"
    using assms(2) by (simp add: twice(1) count_list_set_insert)
  have same: "uninitializedAccounts ?s2 = uninitializedAccounts (addAccount key st)"
    using assms(1) by (simp add: twice(1) addAccount_eq set_insert_def)
  have dist: "distinct (uninitializedAccounts ?s2)"
    using assms(2) by (simp add: twice(1) set_insert_erase)
  have sweep: "registrations ?full (issued ?s2 (initializeAccountsPeriodic ?s2)) =
      [register_request (type st) ?full]"
    using assms(1) dist
    by (simp add: sweep_registrations twice(3,4))
       (simp add: twice(1) set_insert_erase)
  note call = addAccount_eq [of k s]
  note sets = set_insert_erase(2) [of x xs] set_insert_erase(1) [of x xs]
  note shape = register_request_def [of t fullKey]
  from call sets shape once same dist twice(2) sweep show ?thesis by (intro conjI)
qed

theorem addAccount_pending_once_witness:
  "\<not> exists (accounts (LocalBanker_new ROUTER ''router''))
       (AccountKey (toString [''camp1'', ''strategy1''] @ '':'' @
          accountSuffix (LocalBanker_new ROUTER ''router''))) \<and>
   distinct (uninitializedAccounts (LocalBanker_new ROUTER ''router'')) \<and>
   uninitializedAccounts
     (addAccount [''camp1'', ''strategy1'']
        (addAccount [''camp1'', ''strategy1''] (LocalBanker_new ROUTER ''router''))) =
     [[''camp1'', ''strategy1'', ''router'']] \<and>
   count_list
     (uninitializedAccounts
        (addAccount [''camp1'', ''strategy1'']
           (addAccount [''camp1'', ''strategy1''] (LocalBanker_new ROUTER ''router''))))
     (AccountKey (toString [''camp1'', ''strategy1''] @ '':'' @
        accountSuffix (LocalBanker_new ROUTER ''router''))) = 1"
proof -
  have h1: "\<not> exists (accounts (LocalBanker_new ROUTER ''router''))
       (AccountKey (toString [''camp1'', ''strategy1''] @ '':'' @
          accountSuffix (LocalBanker_new ROUTER ''router'')))"
    by code_simp
  have h2: "distinct (uninitializedAccounts (LocalBanker_new ROUTER ''router''))"
    by code_simp
  have pending: "uninitializedAccounts
     (addAccount [''camp1'', ''strategy1'']
        (addAccount [''camp1'', ''strategy1''] (LocalBanker_new ROUTER ''router''))) =
     [[''camp1'', ''strategy1'', ''router'']]"
    by code_simp
  note inst = addAccount_pending_once
    [OF h1 h2, THEN conjunct2, THEN conjunct2, THEN conjunct2, THEN conjunct2,
     THEN conjunct1]
  from inst have "count_list
     (uninitializedAccounts
        (addAccount [''camp1'', ''strategy1'']
           (addAccount [''camp1'', ''strategy1''] (LocalBanker_new ROUTER ''router''))))
     (AccountKey (toString [''camp1'', ''strategy1''] @ '':'' @
        accountSuffix (LocalBanker_new ROUTER ''router''))) = 1" .
  with h1 h2 pending show ?thesis by (intro conjI)
qed

section \<open>Response handlers and the message loop\<close>

lemma addAccount_onResponse_fields:
  "uninitializedAccounts (addAccount_onResponse c key status body st) =
     (if status = 200 then set_erase key (uninitializedAccounts st)
      else uninitializedAccounts st)"
  "httpClient (addAccount_onResponse c key status body st) = httpClient st"
  "answered (addAccount_onResponse c key status body st) = answered st"
  "accounts (addAccount_onResponse c key status body st) =
     (if status = 200 then snd (addFromJsonString c body (accounts st)) else accounts st)"
  "events (addAccount_onResponse c key status body st) = events st @
     (if status \<noteq> 200 then [Hit ''addAccount.failure'']
      else if fst (addFromJsonString c body (accounts st)) then [Hit ''addAccount.success'']
      else [Hit ''addAccount.error'', Hit ''addAccount.success''])"
  "spendUpdateInProgress (addAccount_onResponse c key status body st) = spendUpdateInProgress st"
  "reauthorizeInProgress (addAccount_onResponse c key status body st) = reauthorizeInProgress st"
  by (simp_all add: addAccount_onResponse_def recordHit_def Let_def split: prod.splits)

lemma replaceAccount_onResponse_fields:
  "uninitializedAccounts (replaceAccount_onResponse c key status body st) =
     uninitializedAccounts st"
  "httpClient (replaceAccount_onResponse c key status body st) = httpClient st"
  "answered (replaceAccount_onResponse c key status body st) = answered st"
  "spendUpdateInProgress (replaceAccount_onResponse c key status body st) = spendUpdateInProgress st"
  "reauthorizeInProgress (replaceAccount_onResponse c key status body st) = reauthorizeInProgress st"
  by (simp_all add: replaceAccount_onResponse_def recordHit_def Let_def split: prod.splits)

lemma setRate_onResponse_fields:
  "uninitializedAccounts (setRate_onResponse status body st) = uninitializedAccounts st"
  "httpClient (setRate_onResponse status body st) = httpClient st"
  "answered (setRate_onResponse status body st) = answered st"
  "spendUpdateInProgress (setRate_onResponse status body st) = spendUpdateInProgress st"
  "reauthorizeInProgress (setRate_onResponse status body st) = reauthorizeInProgress st"
  by (simp_all add: setRate_onResponse_def recordHit_def)

lemma spendUpdate_onResponse_fields:
  "uninitializedAccounts (spendUpdate_onResponse c status body st) = uninitializedAccounts st"
  "httpClient (spendUpdate_onResponse c status body st) = httpClient st @
     (if status = 200 then
        (case parseStatuses c body of
           None \<Rightarrow> []
         | Some es \<Rightarrow>
             map (\<lambda>e. replace_request (AccountKey (fst e)))
               (filter (\<lambda>e. snd e \<noteq> ''no need'' \<and> snd e \<noteq> ''success'') es))
      else [])"
  "answered (spendUpdate_onResponse c status body st) = answered st"
  "spendUpdateInProgress (spendUpdate_onResponse c status body st) = False"
  "reauthorizeInProgress (spendUpdate_onResponse c status body st) = reauthorizeInProgress st"
  by (simp_all add: spendUpdate_onResponse_def recordHit_def Let_def
      spendUpdate_entries_fields split: option.splits)

lemma reauthorize_onResponse_fields:
  "uninitializedAccounts (reauthorize_onResponse c status body st) = uninitializedAccounts st"
  "httpClient (reauthorize_onResponse c status body st) = httpClient st @
     (if status = 200 then
        (case parseRecords c body of
           None \<Rightarrow> []
         | Some rs \<Rightarrow>
             map (\<lambda>r. setRate_request (AccountKey (name r)) (spendRate st))
               (filter (\<lambda>r. spendRate st < rate r) rs))
      else [])"
  "answered (reauthorize_onResponse c status body st) = answered st"
  "reauthorizeInProgress (reauthorize_onResponse c status body st) = False"
  "spendUpdateInProgress (reauthorize_onResponse c status body st) = spendUpdateInProgress st"
  by (simp_all add: reauthorize_onResponse_def recordHit_def Let_def
      fold_reauthorize_account_fields split: option.splits)

lemma registrations_append:
  "registrations key (xs @ ys) = registrations key xs @ registrations key ys"
  by (simp add: registrations_def)

lemma registrations_other:
  "registrations key (map (\<lambda>e. replace_request (f e)) es) = []"
  "registrations key (map (\<lambda>r. setRate_request (g r) v) rs) = []"
  "registrations key [spendUpdate_request c st] = []"
  "registrations key [reauthorize_request st] = []"
  "registrations key [] = []"
  by (simp_all add: registrations_def replace_request_def setRate_request_def
      spendUpdate_request_def reauthorize_request_def)

lemma runCallback_registrations:
  "registrations key (httpClient (runCallback c cb status body st)) =
     registrations key (httpClient st)"
  by (cases cb)
     (simp_all add: runCallback_def addAccount_onResponse_fields
        replaceAccount_onResponse_fields setRate_onResponse_fields
        spendUpdate_onResponse_fields reauthorize_onResponse_fields
        registrations_append registrations_other split: option.splits)

lemma runCallback_pending:
  "set (uninitializedAccounts (runCallback c cb status body st)) \<subseteq>
     set (uninitializedAccounts st)"
  by (cases cb)
     (auto simp: runCallback_def addAccount_onResponse_fields
        replaceAccount_onResponse_fields setRate_onResponse_fields
        spendUpdate_onResponse_fields reauthorize_onResponse_fields set_insert_erase)

lemma tick_httpClient:
  "httpClient (spendUpdate c st) = httpClient st @
     (if spendUpdateInProgress st \<and> spendUpdateSkipped st + 1 \<le> 3 then []
      else [spendUpdate_request c st])"
  "httpClient (reauthorize st) = httpClient st @
     (if reauthorizeInProgress st \<and> reauthorizeSkipped st + 1 \<le> 3 then []
      else [reauthorize_request st])"
  "answered (spendUpdate c st) = answered st"
  "answered (reauthorize st) = answered st"
  by (simp_all add: tick_defs)

lemma fold_addAccountImpl_absent:
  "key \<notin> set ks \<Longrightarrow> key \<notin> set (uninitializedAccounts st) \<Longrightarrow>
     key \<notin> set (uninitializedAccounts (fold addAccountImpl ks st))"
  by (induction ks arbitrary: st) (auto simp: addAccountImpl_fields set_insert_erase)

lemma sweep_absent:
  assumes "key \<notin> set (uninitializedAccounts st)"
  shows "key \<notin> set (uninitializedAccounts (initializeAccountsPeriodic st))"
    and "registrations key (httpClient (initializeAccountsPeriodic st)) =
           registrations key (httpClient st)"
proof -
  show "key \<notin> set (uninitializedAccounts (initializeAccountsPeriodic st))"
    using assms
    by (simp add: initializeAccountsPeriodic_def Let_def recordCount_def
        fold_addAccountImpl_absent)
  have "filter (\<lambda>k. k = key) (filter (\<lambda>k. \<not> exists (accounts st) k) (uninitializedAccounts st)) = []"
    using assms by (auto simp: filter_empty_conv)
  then show "registrations key (httpClient (initializeAccountsPeriodic st)) =
           registrations key (httpClient st)"
    by (simp add: initializeAccountsPeriodic_def Let_def recordCount_def
        fold_addAccountImpl_fields registrations_append registrations_map)
qed

lemma handle_absent:
  assumes "key \<notin> set (uninitializedAccounts st)"
  shows "key \<notin> set (uninitializedAccounts (handle c ev st)) \<and>
         registrations key (httpClient (handle c ev st)) = registrations key (httpClient st)"
proof (cases ev)
  case ReauthorizeTick
  with assms show ?thesis
    by (simp add: reauthorize_tick tick_httpClient registrations_append registrations_other)
next
  case SpendUpdateTick
  with assms show ?thesis
    by (simp add: spendUpdate_tick tick_httpClient registrations_append registrations_other)
next
  case UninitializedAccountsTick
  with assms show ?thesis by (simp add: sweep_absent)
next
  case (Response i status body)
  have "key \<notin> set (uninitializedAccounts (deliver c i status body st))"
    using assms runCallback_pending
      [of c "onResponse (httpClient st ! i)" status body "st\<lparr>answered := i # answered st\<rparr>"]
    by (auto simp: deliver_def)
  moreover have "registrations key (httpClient (deliver c i status body st)) =
      registrations key (httpClient st)"
    by (simp add: deliver_def runCallback_registrations)
  ultimately show ?thesis using Response by simp
qed

lemma run_absent:
  "key \<notin> set (uninitializedAccounts st) \<Longrightarrow>
     key \<notin> set (uninitializedAccounts (run c evs st)) \<and>
     registrations key (httpClient (run c evs st)) = registrations key (httpClient st)"
proof (induction evs arbitrary: st)
  case Nil
  then show ?case by (simp add: run_def)
next
  case (Cons ev evs)
  from handle_absent [OF Cons.prems, of c ev]
  have step: "key \<notin> set (uninitializedAccounts (handle c ev st))"
    and regs: "registrations key (httpClient (handle c ev st)) =
      registrations key (httpClient st)"
    by simp_all
  from Cons.IH [OF step] regs show ?case by (simp add: run_def)
qed

lemma distinct_pending_addAccountImpl:
  "distinct (uninitializedAccounts st) \<Longrightarrow>
     distinct (uninitializedAccounts (addAccountImpl key st))"
  by (simp add: addAccountImpl_fields set_insert_erase)

lemma distinct_pending_fold:
  "distinct (uninitializedAccounts st) \<Longrightarrow>
     distinct (uninitializedAccounts (fold addAccountImpl ks st))"
  by (induction ks arbitrary: st) (simp_all add: distinct_pending_addAccountImpl)

lemma distinct_pending_runCallback:
  "distinct (uninitializedAccounts st) \<Longrightarrow>
     distinct (uninitializedAccounts (runCallback c cb status body st))"
  by (cases cb)
     (simp_all add: runCallback_def addAccount_onResponse_fields
        replaceAccount_onResponse_fields setRate_onResponse_fields
        spendUpdate_onResponse_fields reauthorize_onResponse_fields set_insert_erase)

lemma distinct_pending_handle:
  assumes "distinct (uninitializedAccounts st)"
  shows "distinct (uninitializedAccounts (handle c ev st))"
proof (cases ev)
  case ReauthorizeTick
  with assms show ?thesis by (simp add: reauthorize_tick)
next
  case SpendUpdateTick
  with assms show ?thesis by (simp add: spendUpdate_tick)
next
  case UninitializedAccountsTick
  then show ?thesis
    by (simp add: initializeAccountsPeriodic_def Let_def recordCount_def
        distinct_pending_fold)
next
  case (Response i status body)
  with assms show ?thesis
    by (simp add: deliver_def distinct_pending_runCallback)
qed

lemma distinct_pending_addAccount:
  "distinct (uninitializedAccounts st) \<Longrightarrow>
     distinct (uninitializedAccounts (addAccount key st))"
  by (simp add: addAccount_def distinct_pending_addAccountImpl)

text \<open>
  Claim C9. When a registration request for a key is answered with status 200 and the
  body does not merge into the store (addFromJsonString returns false), the handler
  still erases the key from the pending-registration set; it records the error event and
  then the success event. From then on no sequence of periodic callbacks and responses
  (sweeps, reauthorize and spend-update ticks, deliveries of responses) brings the key
  back into the pending set or sends another registration request for it: only a new
  call of \<open>addAccount\<close> would. A response with any other status leaves the pending
  set as it was, so a key that was pending stays pending for the next sweep.
\<close>

theorem failed_merge_erases_pending:
  assumes "\<not> fst (addFromJsonString c body (accounts st))" and "status \<noteq> 200"
  shows
    "uninitializedAccounts (addAccount_onResponse c key 200 body st) =
       set_erase key (uninitializedAccounts st) \<and>
     key \<notin> set (uninitializedAccounts (addAccount_onResponse c key 200 body st)) \<and>
     events (addAccount_onResponse c key 200 body st) =
       events st @ [Hit ''addAccount.error'', Hit ''addAccount.success''] \<and>
     key \<notin> set (uninitializedAccounts
                  (run c evs (addAccount_onResponse c key 200 body st))) \<and>
     registrations key (httpClient (run c evs (addAccount_onResponse c key 200 body st))) =
       registrations key (httpClient st) \<and>
     uninitializedAccounts (addAccount_onResponse c key status body' st') =
       uninitializedAccounts st'"
proof -
  let ?st1 = "addAccount_onResponse c key 200 body st"
  have erased: "uninitializedAccounts ?st1 = set_erase key (uninitializedAccounts st)"
    by (simp add: addAccount_onResponse_fields)
  have gone: "key \<notin> set (uninitializedAccounts ?st1)"
    by (simp add: erased set_insert_erase)
  have ev: "events ?st1 = events st @ [Hit ''addAccount.error'', Hit ''addAccount.success'']"
    using assms(1) by (simp add: addAccount_onResponse_fields)
  note later = run_absent [OF gone, of c evs]
  have sent: "registrations key (httpClient (run c evs ?st1)) =
      registrations key (httpClient st)"
    using later by (simp add: addAccount_onResponse_fields)
  have kept: "uninitializedAccounts (addAccount_onResponse c key status body' st') =
      uninitializedAccounts st'"
    using assms(2) by (simp add: addAccount_onResponse_fields)
  from erased gone ev later sent kept show ?thesis by (intro conjI) simp_all
qed

theorem failed_merge_erases_pending_witness:
  "\<not> fst (addFromJsonString (codec_of None None None) ''not an account''
            (accounts (addAccount [''camp1'', ''strategy1'']
                         (LocalBanker_new ROUTER ''router'')))) \<and>
   (503 :: int) \<noteq> 200 \<and>
   uninitializedAccounts
     (addAccount [''camp1'', ''strategy1''] (LocalBanker_new ROUTER ''router'')) =
     [[''camp1'', ''strategy1'', ''router'']] \<and>
   uninitializedAccounts
     (addAccount_onResponse (codec_of None None None)
        [''camp1'', ''strategy1'', ''router''] 200 ''not an account''
        (addAccount [''camp1'', ''strategy1''] (LocalBanker_new ROUTER ''router''))) = [] \<and>
   [''camp1'', ''strategy1'', ''router''] \<notin> set (uninitializedAccounts
     (run (codec_of None None None)
        [UninitializedAccountsTick, ReauthorizeTick, UninitializedAccountsTick]
        (addAccount_onResponse (codec_of None None None)
           [''camp1'', ''strategy1'', ''router''] 200 ''not an account''
           (addAccount [''camp1'', ''strategy1''] (LocalBanker_new ROUTER ''router'')))))"
proof -
  have h1: "\<not> fst (addFromJsonString (codec_of None None None) ''not an account''
            (accounts (addAccount [''camp1'', ''strategy1'']
                         (LocalBanker_new ROUTER ''router''))))"
    by (simp add: addFromJsonString_def codec_of_def)
  have h2: "(503 :: int) \<noteq> 200" by simp
  have before: "uninitializedAccounts
     (addAccount [''camp1'', ''strategy1''] (LocalBanker_new ROUTER ''router'')) =
     [[''camp1'', ''strategy1'', ''router'']]"
    by code_simp
  note inst = failed_merge_erases_pending
    [OF h1 h2, where key = "[''camp1'', ''strategy1'', ''router'']" and
       evs = "[UninitializedAccountsTick, ReauthorizeTick, UninitializedAccountsTick]"]
  have after: "uninitializedAccounts
     (addAccount_onResponse (codec_of None None None)
        [''camp1'', ''strategy1'', ''router''] 200 ''not an account''
        (addAccount [''camp1'', ''strategy1''] (LocalBanker_new ROUTER ''router''))) = []"
    unfolding inst [THEN conjunct1] before by (simp add: set_erase_def)
  note later = inst [THEN conjunct2, THEN conjunct2, THEN conjunct2, THEN conjunct1]
  from h1 h2 before after later show ?thesis by (intro conjI)
qed

section \<open>Responses to overlapping requests\<close>

lemma client_wf_new: "client_wf (LocalBanker_new t suffix)"
  by (simp add: client_wf_def LocalBanker_new_def)

lemma client_wf_grow:
  assumes "client_wf st" and "answered st' = answered st"
    and "httpClient st' = httpClient st @ new"
  shows "client_wf st'"
  using assms by (auto simp: client_wf_def list_all_iff)

lemma client_wf_runCallback:
  assumes "client_wf st"
  shows "client_wf (runCallback c cb status body st)"
proof (cases cb)
  case (AddAccountCb key)
  then show ?thesis
    using client_wf_grow [OF assms, of _ "[]"]
    by (simp add: runCallback_def addAccount_onResponse_fields)
next
  case (ReplaceAccountCb key)
  then show ?thesis
    using client_wf_grow [OF assms, of _ "[]"]
    by (simp add: runCallback_def replaceAccount_onResponse_fields)
next
  case SpendUpdateCb
  then show ?thesis
    using client_wf_grow [OF assms]
    by (simp add: runCallback_def spendUpdate_onResponse_fields)
next
  case ReauthorizeCb
  then show ?thesis
    using client_wf_grow [OF assms]
    by (simp add: runCallback_def reauthorize_onResponse_fields)
next
  case SetRateCb
  then show ?thesis
    using client_wf_grow [OF assms, of _ "[]"]
    by (simp add: runCallback_def setRate_onResponse_fields)
qed

lemma client_wf_handle:
  assumes "client_wf st"
  shows "client_wf (handle c ev st)"
proof (cases ev)
  case ReauthorizeTick
  then show ?thesis
    using assms client_wf_grow [OF assms, of "reauthorize st"]
    by (simp add: tick_httpClient)
next
  case SpendUpdateTick
  then show ?thesis
    using assms client_wf_grow [OF assms, of "spendUpdate c st"]
    by (simp add: tick_httpClient)
next
  case UninitializedAccountsTick
  then show ?thesis
    using client_wf_grow [OF assms, of "initializeAccountsPeriodic st"]
    by (simp add: initializeAccountsPeriodic_def Let_def recordCount_def
        fold_addAccountImpl_fields)
next
  case (Response i status body)
  have "client_wf (st\<lparr>answered := i # answered st\<rparr>)"
    if "i < length (httpClient st)"
    using assms that by (simp add: client_wf_def)
  then show ?thesis
    using Response assms by (simp add: deliver_def client_wf_runCallback)
qed

lemma client_wf_addAccount:
  "client_wf st \<Longrightarrow> client_wf (addAccount key st)"
  using client_wf_grow [of st "addAccount key st"]
  by (simp add: addAccount_def addAccountImpl_fields)

lemma client_wf_run: "client_wf st \<Longrightarrow> client_wf (run c evs st)"
  unfolding run_def by (induction evs arbitrary: st) (simp_all add: client_wf_handle)

lemma outstanding_iff:
  "i \<in> set (outstanding cb st) \<longleftrightarrow>
     i < length (httpClient st) \<and> i \<notin> set (answered st) \<and>
     onResponse (httpClient st ! i) = cb"
  by (auto simp: outstanding_def)

lemma deliver_spendUpdate:
  assumes "i \<in> set (outstanding SpendUpdateCb st)"
  shows "deliver c i status body st =
           spendUpdate_onResponse c status body (st\<lparr>answered := i # answered st\<rparr>)"
  using assms by (simp add: outstanding_iff deliver_def runCallback_def)

lemma deliver_reauthorize:
  assumes "i \<in> set (outstanding ReauthorizeCb st)"
  shows "deliver c i status body st =
           reauthorize_onResponse c status body (st\<lparr>answered := i # answered st\<rparr>)"
  using assms by (simp add: outstanding_iff deliver_def runCallback_def)

lemma spendUpdate_first_response:
  assumes wf: "client_wf st" and i: "i \<in> set (outstanding SpendUpdateCb st)"
    and j: "j \<in> set (outstanding SpendUpdateCb st)"
    and ij: "i \<noteq> j"
  shows "\<not> spendUpdateInProgress (deliver c i status body st)"
    and "j \<in> set (outstanding SpendUpdateCb (deliver c i status body st))"
    and "issued (deliver c i status body st) (spendUpdate c (deliver c i status body st)) =
           [spendUpdate_request c (deliver c i status body st)]"
    and "events (spendUpdate c (deliver c i status body st)) =
           events (deliver c i status body st) @ [Hit ''spendUpdate.attempt'']"
    and "j \<in> set (outstanding SpendUpdateCb (spendUpdate c (deliver c i status body st)))"
    and "length (httpClient (deliver c i status body st)) \<in>
           set (outstanding SpendUpdateCb (spendUpdate c (deliver c i status body st)))"
proof -
  let ?st1 = "deliver c i status body st"
  have flag: "\<not> spendUpdateInProgress ?st1"
    by (simp add: deliver_spendUpdate [OF i] spendUpdate_onResponse_fields)
  show "\<not> spendUpdateInProgress ?st1" by (rule flag)
  have jlt: "j < length (httpClient st)" and jans: "j \<notin> set (answered st)"
    and jcb: "onResponse (httpClient st ! j) = SpendUpdateCb"
    using j by (simp_all add: outstanding_iff)
  obtain new where sent: "httpClient ?st1 = httpClient st @ new"
    by (simp add: deliver_spendUpdate [OF i] spendUpdate_onResponse_fields)
  have ans: "answered ?st1 = i # answered st"
    by (simp add: deliver_spendUpdate [OF i] spendUpdate_onResponse_fields)
  show j1: "j \<in> set (outstanding SpendUpdateCb ?st1)"
    using jlt jans jcb ij by (simp add: outstanding_iff sent ans nth_append)
  show "issued ?st1 (spendUpdate c ?st1) = [spendUpdate_request c ?st1]"
    using flag by (simp add: spendUpdate_tick)
  show "events (spendUpdate c ?st1) = events ?st1 @ [Hit ''spendUpdate.attempt'']"
    using flag by (simp add: spendUpdate_tick_events)
  have sent2: "httpClient (spendUpdate c ?st1) = httpClient ?st1 @ [spendUpdate_request c ?st1]"
    using flag by (simp add: tick_httpClient)
  have j1lt: "j < length (httpClient ?st1)" using j1 by (simp add: outstanding_iff)
  show "j \<in> set (outstanding SpendUpdateCb (spendUpdate c ?st1))"
    using j1 by (simp add: outstanding_iff sent2 tick_httpClient nth_append)
  have ilt: "i < length (httpClient st)" using i by (simp add: outstanding_iff)
  have "length (httpClient ?st1) \<notin> set (answered ?st1)"
    using wf ilt by (auto simp: ans sent client_wf_def list_all_iff)
  then show "length (httpClient ?st1) \<in> set (outstanding SpendUpdateCb (spendUpdate c ?st1))"
    using flag by (simp add: outstanding_iff sent2 tick_httpClient spendUpdate_request_def)
qed

lemma reauthorize_first_response:
  assumes wf: "client_wf st" and i: "i \<in> set (outstanding ReauthorizeCb st)"
    and j: "j \<in> set (outstanding ReauthorizeCb st)"
    and ij: "i \<noteq> j"
  shows "\<not> reauthorizeInProgress (deliver c i status body st)"
    and "j \<in> set (outstanding ReauthorizeCb (deliver c i status body st))"
    and "issued (deliver c i status body st) (reauthorize (deliver c i status body st)) =
           [reauthorize_request (deliver c i status body st)]"
    and "events (reauthorize (deliver c i status body st)) =
           events (deliver c i status body st) @ [Hit ''reauthorize.attempt'']"
    and "j \<in> set (outstanding ReauthorizeCb (reauthorize (deliver c i status body st)))"
    and "length (httpClient (deliver c i status body st)) \<in>
           set (outstanding ReauthorizeCb (reauthorize (deliver c i status body st)))"
proof -
  let ?st1 = "deliver c i status body st"
  have flag: "\<not> reauthorizeInProgress ?st1"
    by (simp add: deliver_reauthorize [OF i] reauthorize_onResponse_fields)
  show "\<not> reauthorizeInProgress ?st1" by (rule flag)
  have jlt: "j < length (httpClient st)" and jans: "j \<notin> set (answered st)"
    and jcb: "onResponse (httpClient st ! j) = ReauthorizeCb"
    using j by (simp_all add: outstanding_iff)
  obtain new where sent: "httpClient ?st1 = httpClient st @ new"
    by (simp add: deliver_reauthorize [OF i] reauthorize_onResponse_fields)
  have ans: "answered ?st1 = i # answered st"
    by (simp add: deliver_reauthorize [OF i] reauthorize_onResponse_fields)
  show j1: "j \<in> set (outstanding ReauthorizeCb ?st1)"
    using jlt jans jcb ij by (simp add: outstanding_iff sent ans nth_append)
  show "issued ?st1 (reauthorize ?st1) = [reauthorize_request ?st1]"
    using flag by (simp add: reauthorize_tick)
  show "events (reauthorize ?st1) = events ?st1 @ [Hit ''reauthorize.attempt'']"
    using flag by (simp add: reauthorize_tick_events)
  have sent2: "httpClient (reauthorize ?st1) = httpClient ?st1 @ [reauthorize_request ?st1]"
    using flag by (simp add: tick_httpClient)
  have j1lt: "j < length (httpClient ?st1)" using j1 by (simp add: outstanding_iff)
  show "j \<in> set (outstanding ReauthorizeCb (reauthorize ?st1))"
    using j1 by (simp add: outstanding_iff sent2 tick_httpClient nth_append)
  have ilt: "i < length (httpClient st)" using i by (simp add: outstanding_iff)
  have "length (httpClient ?st1) \<notin> set (answered ?st1)"
    using wf ilt by (auto simp: ans sent client_wf_def list_all_iff)
  then show "length (httpClient ?st1) \<in> set (outstanding ReauthorizeCb (reauthorize ?st1))"
    using flag by (simp add: outstanding_iff sent2 tick_httpClient reauthorize_request_def)
qed


text \<open>
  Claim C10. The in-progress flag of a protocol does not know which request it stands
  for. Whenever two requests of a protocol are outstanding, as after a forced retry, the
  response to either of them, whatever its status and body, clears the flag while the
  other request is still outstanding. The tick that follows therefore finds the flag
  clear: it records no skip, only the attempt, and sends one more request, so that again
  two requests of the protocol are outstanding, the one left over and the new one. As
  long as a response is processed while another request of the protocol is outstanding,
  the next tick restores two outstanding requests; at most one is outstanding again only
  once the responses to all of them have arrived before a tick.
\<close>

theorem flag_cleared_by_first_response:
  assumes "client_wf st"
    and "i \<in> set (outstanding SpendUpdateCb st)"
    and "j \<in> set (outstanding SpendUpdateCb st)"
    and "i \<noteq> j"
    and "client_wf st'"
    and "m \<in> set (outstanding ReauthorizeCb st')"
    and "n \<in> set (outstanding ReauthorizeCb st')"
    and "m \<noteq> n"
  shows
    "(let s1 = deliver c i status body st; s2 = spendUpdate c s1
      in \<not> spendUpdateInProgress s1 \<and>
         j \<in> set (outstanding SpendUpdateCb s1) \<and>
         issued s1 s2 = [spendUpdate_request c s1] \<and>
         events s2 = events s1 @ [Hit ''spendUpdate.attempt''] \<and>
         j \<in> set (outstanding SpendUpdateCb s2) \<and>
         length (httpClient s1) \<in> set (outstanding SpendUpdateCb s2) \<and>
         j \<noteq> length (httpClient s1)) \<and>
     (let s1 = deliver c m status body st'; s2 = reauthorize s1
      in \<not> reauthorizeInProgress s1 \<and>
         n \<in> set (outstanding ReauthorizeCb s1) \<and>
         issued s1 s2 = [reauthorize_request s1] \<and>
         events s2 = events s1 @ [Hit ''reauthorize.attempt''] \<and>
         n \<in> set (outstanding ReauthorizeCb s2) \<and>
         length (httpClient s1) \<in> set (outstanding ReauthorizeCb s2) \<and>
         n \<noteq> length (httpClient s1))"
proof -
  note su = spendUpdate_first_response [OF assms(1,2,3,4), of c status body]
  note re = reauthorize_first_response [OF assms(5,6,7,8), of c status body]
  have jlt: "j \<noteq> length (httpClient (deliver c i status body st))"
    using su(2) by (auto simp: outstanding_iff)
  have nlt: "n \<noteq> length (httpClient (deliver c m status body st'))"
    using re(2) by (auto simp: outstanding_iff)
  from su re jlt nlt show ?thesis unfolding Let_def by (intro conjI)
qed

theorem flag_cleared_by_first_response_witness:
  "client_wf two_spendUpdates \<and>
   0 \<in> set (outstanding SpendUpdateCb two_spendUpdates) \<and>
   1 \<in> set (outstanding SpendUpdateCb two_spendUpdates) \<and>
   (0 :: nat) \<noteq> 1 \<and>
   client_wf two_reauthorizes \<and>
   1 \<in> set (outstanding ReauthorizeCb two_reauthorizes) \<and>
   0 \<in> set (outstanding ReauthorizeCb two_reauthorizes) \<and>
   (1 :: nat) \<noteq> 0 \<and>
   outstanding SpendUpdateCb two_spendUpdates = [0, 1] \<and>
   outstanding ReauthorizeCb two_reauthorizes = [0, 1] \<and>
   \<not> spendUpdateInProgress
       (deliver (codec_of None None None) 0 200 ''answer'' two_spendUpdates) \<and>
   1 \<in> set (outstanding SpendUpdateCb
       (spendUpdate (codec_of None None None)
          (deliver (codec_of None None None) 0 200 ''answer'' two_spendUpdates))) \<and>
   length (httpClient (deliver (codec_of None None None) 0 200 ''answer'' two_spendUpdates))
     \<in> set (outstanding SpendUpdateCb
       (spendUpdate (codec_of None None None)
          (deliver (codec_of None None None) 0 200 ''answer'' two_spendUpdates))) \<and>
   \<not> reauthorizeInProgress
       (deliver (codec_of None None None) 1 200 ''answer'' two_reauthorizes) \<and>
   0 \<in> set (outstanding ReauthorizeCb
       (reauthorize
          (deliver (codec_of None None None) 1 200 ''answer'' two_reauthorizes)))"
proof -
  have h1: "client_wf two_spendUpdates" by code_simp
  have h2: "0 \<in> set (outstanding SpendUpdateCb two_spendUpdates)" by code_simp
  have h3: "1 \<in> set (outstanding SpendUpdateCb two_spendUpdates)" by code_simp
  have h4: "(0 :: nat) \<noteq> 1" by simp
  have h5: "client_wf two_reauthorizes" by code_simp
  have h6: "1 \<in> set (outstanding ReauthorizeCb two_reauthorizes)" by code_simp
  have h7: "0 \<in> set (outstanding ReauthorizeCb two_reauthorizes)" by code_simp
  have h8: "(1 :: nat) \<noteq> 0" by simp
  have both: "outstanding SpendUpdateCb two_spendUpdates = [0, 1]" by code_simp
  have both': "outstanding ReauthorizeCb two_reauthorizes = [0, 1]" by code_simp
  note inst = flag_cleared_by_first_response
    [OF h1 h2 h3 h4 h5 h6 h7 h8, where c = "codec_of None None None" and status = 200
       and body = "''answer''", unfolded Let_def]
  note su = inst [THEN conjunct1]
  note re = inst [THEN conjunct2]
  note flag = su [THEN conjunct1]
  note left = su [THEN conjunct2, THEN conjunct2, THEN conjunct2, THEN conjunct2,
    THEN conjunct1]
  note fresh = su [THEN conjunct2, THEN conjunct2, THEN conjunct2, THEN conjunct2,
    THEN conjunct2, THEN conjunct1]
  note flag' = re [THEN conjunct1]
  note left' = re [THEN conjunct2, THEN conjunct2, THEN conjunct2, THEN conjunct2,
    THEN conjunct1]
  from h1 h2 h3 h4 h5 h6 h7 h8 both both' flag left fresh flag' left'
  show ?thesis by (intro conjI)
qed

end
